theory Spec2Isabelle
  imports Main
begin

chapter \<open>The document parser and the hierarchical linker of V10.PY\<close>

text \<open>
  An embedding of \<open>normalize_name\<close>, \<open>parse_markdown\<close> and \<open>link_data\<close> of
  \<open>src/V10.PY\<close>, with the statements of the specification about them.  The definitions
  follow the source and keep its names; the window, the map rendering and the loading
  of the shapefiles are not modelled.
\<close>

section \<open>Strings\<close>

text \<open>
  Python strings are sequences of Unicode code points.  The headings and suffixes of
  the program are Chinese, so a string is modelled as the list of its code points
  (\<open>ord\<close> of each character); \<open>length\<close> then counts what Python's \<open>len\<close> counts.
  \<open>ascii\<close> embeds an ASCII literal.
\<close>

type_synonym ustr = "nat list"

definition ascii :: "string \<Rightarrow> ustr" where
  "ascii s = map of_char s"

text \<open>
  \<open>str.isspace\<close> for one character, which is also what \<open>\s\<close> matches in a
  \<open>str\<close> pattern of \<open>re\<close>: U+0009..U+000D, U+001C..U+0020, U+0085, U+00A0, U+1680,
  U+2000..U+200A, U+2028, U+2029, U+202F, U+205F, U+3000.
\<close>

definition isspace :: "nat \<Rightarrow> bool" where
  "isspace c \<longleftrightarrow>
     (9 \<le> c \<and> c \<le> 13) \<or> (28 \<le> c \<and> c \<le> 32) \<or> c = 133 \<or> c = 160 \<or> c = 5760 \<or>
     (8192 \<le> c \<and> c \<le> 8202) \<or> c = 8232 \<or> c = 8233 \<or> c = 8239 \<or> c = 8287 \<or>
     c = 12288"

text \<open>\<open>s.strip(chars)\<close>: drop the characters satisfying \<open>P\<close> from both ends.\<close>

definition strip_by :: "(nat \<Rightarrow> bool) \<Rightarrow> ustr \<Rightarrow> ustr" where
  "strip_by P s = rev (dropWhile P (rev (dropWhile P s)))"

text \<open>\<open>s.strip()\<close> strips whitespace; \<open>s.strip('\n')\<close> strips line feeds (code point 10).\<close>

definition strip :: "ustr \<Rightarrow> ustr" where
  "strip s = strip_by isspace s"

definition strip_nl :: "ustr \<Rightarrow> ustr" where
  "strip_nl s = strip_by (\<lambda>c. c = 10) s"

text \<open>\<open>name.endswith(suffix)\<close>.\<close>

definition endswith :: "ustr \<Rightarrow> ustr \<Rightarrow> bool" where
  "endswith name suf \<longleftrightarrow>
     length suf \<le> length name \<and> drop (length name - length suf) name = suf"

section \<open>normalize_name\<close>

text \<open>
  The list \<open>suffixes_to_remove\<close> of the source, in its order:
  U+7701, U+5E02, U+533A, U+53BF, U+81EA U+6CBB U+5DDE, U+81EA U+6CBB U+53BF,
  U+5730 U+533A, U+76DF.
\<close>

definition suffixes_to_remove :: "ustr list" where
  "suffixes_to_remove =
     [[30465], [24066], [21306], [21439], [33258, 27835, 24030], [33258, 27835, 21439],
      [22320, 21306], [30431]]"

text \<open>
  The slice \<open>name[:-k]\<close>: all but the last \<open>k\<close> characters, and the empty string when
  \<open>k\<close> is 0 (the slice then ends at index 0).
\<close>

definition drop_last :: "nat \<Rightarrow> ustr \<Rightarrow> ustr" where
  "drop_last k name = (if k = 0 then [] else take (length name - k) name)"

text \<open>
  The body of the loop over the suffixes: \<open>name[:-len(suffix)]\<close> when the name ends
  with the suffix and is longer than it.  The loop has no \<open>break\<close>: it goes on with
  the shortened name.
\<close>

definition remove_suffix :: "ustr \<Rightarrow> ustr \<Rightarrow> ustr" where
  "remove_suffix name suf =
     (if endswith name suf \<and> length name > length suf
      then drop_last (length suf) name else name)"

definition normalize_name :: "ustr option \<Rightarrow> ustr" where
  "normalize_name name =
     (case name of
        None \<Rightarrow> []
      | Some n \<Rightarrow> foldl remove_suffix (strip n) suffixes_to_remove)"

text \<open>
  The six suffixes of the list that do not end with another suffix of the list (the
  other two, U+81EA U+6CBB U+53BF and U+5730 U+533A, end with U+53BF and U+533A, which
  stand before them in the list).
\<close>

definition single_suffixes :: "ustr list" where
  "single_suffixes = [[30465], [24066], [21306], [21439], [33258, 27835, 24030], [30431]]"

text \<open>The other two suffixes of the list.\<close>

definition shadowed_suffixes :: "ustr list" where
  "shadowed_suffixes = [[33258, 27835, 21439], [22320, 21306]]"

text \<open>
  A name is in normal form when stripping leaves it as it is and it ends with no
  suffix of the list shorter than itself.
\<close>

definition normal_form :: "ustr \<Rightarrow> bool" where
  "normal_form y \<longleftrightarrow>
     strip y = y \<and> (\<forall>u\<in>set suffixes_to_remove. \<not> (endswith y u \<and> length u < length y))"

section \<open>The region records\<close>

text \<open>
  Identifiers (\<open>adcode\<close>) are compared and copied only; boundary geometries are opaque
  to the program, which only copies them, so a geometry is a numbered handle.
\<close>

type_synonym adcode = int

datatype geometry = Geometry nat

text \<open>
  An \<open>AdministrativeRegion\<close> dictionary.  A key that is absent or holds \<open>None\<close> is
  \<open>None\<close> here (\<open>parent_name\<close> and \<open>parent_adcode\<close> are absent on a level-1 region).
  The type of \<open>children\<close> is a parameter: on the parser's heap it is the list of the
  children's addresses, absent on a level-3 region (\<open>nat list option\<close>); in the
  returned forest it is the list of the children themselves, and \<open>unit\<close> for a level-3
  region, which has no such key.
\<close>

record 'c region =
  name :: ustr
  level :: nat
  adcode :: "adcode option"
  parent_name :: "ustr option"
  parent_adcode :: "adcode option"
  text_general :: ustr
  text_detail :: ustr
  geometry :: "geometry option"
  children :: 'c

type_synonym district = "unit region"
type_synonym city = "district list region"
type_synonym province = "city list region"
type_synonym ProcessedData = "province list"

section \<open>The heading patterns\<close>

text \<open>
  The five compiled patterns, each used through \<open>pattern.match(line)\<close>, are written as
  matchers that return the remaining input or the captured title.  \<open>lit\<close> consumes a
  literal; \<open>plus1 P\<close> is a greedy \<open>P+\<close> and \<open>star P\<close> a greedy \<open>P*\<close>, used where the
  next item of the pattern cannot match \<open>P\<close>, so that backtracking into the repetition
  cannot help.
\<close>

definition lit :: "ustr \<Rightarrow> ustr \<Rightarrow> ustr option" where
  "lit p r = (if take (length p) r = p then Some (drop (length p) r) else None)"

definition plus1 :: "(nat \<Rightarrow> bool) \<Rightarrow> ustr \<Rightarrow> ustr option" where
  "plus1 P r = (if takeWhile P r = [] then None else Some (dropWhile P r))"

definition star :: "(nat \<Rightarrow> bool) \<Rightarrow> ustr \<Rightarrow> ustr option" where
  "star P r = Some (dropWhile P r)"

text \<open>\<open>[0-9]\<close>: the ASCII digits.\<close>

definition is_digit :: "nat \<Rightarrow> bool" where
  "is_digit c \<longleftrightarrow> 48 \<le> c \<and> c \<le> 57"

text \<open>\<open>$\<close> matches at the end of the string and before a line feed that ends it.\<close>

definition at_end :: "ustr \<Rightarrow> bool" where
  "at_end r \<longleftrightarrow> r = [] \<or> r = [10]"

text \<open>
  The tail \<open>\s*(.+)$\<close> of the three title patterns.  \<open>title_at k r\<close> is the group when
  \<open>\s*\<close> consumes \<open>k\<close> characters: \<open>.\<close> matches anything but a line feed, and only the
  longest run can be followed by \<open>$\<close>.  \<open>\s*\<close> is greedy and gives characters back one
  at a time (\<open>title_after\<close>).
\<close>

definition title_at :: "nat \<Rightarrow> ustr \<Rightarrow> ustr option" where
  "title_at k r =
     (let rest = drop k r; g = takeWhile (\<lambda>c. c \<noteq> 10) rest
      in if g \<noteq> [] \<and> at_end (drop (length g) rest) then Some g else None)"

fun title_after :: "nat \<Rightarrow> ustr \<Rightarrow> ustr option" where
  "title_after 0 r = title_at 0 r"
| "title_after (Suc k) r =
     (case title_at (Suc k) r of Some g \<Rightarrow> Some g | None \<Rightarrow> title_after k r)"

definition title_group :: "ustr \<Rightarrow> ustr option" where
  "title_group r = title_after (length (takeWhile isspace r)) r"

text \<open>\<open>H1_MD_PATTERN\<close>: \<open>^#\s+\<close> U+7B2C \<open>[0-9]+\<close> U+7AE0 \<open>\s*(.+)$\<close>; the result is group 1.\<close>

definition H1_MD_PATTERN :: "ustr \<Rightarrow> ustr option" where
  "H1_MD_PATTERN line =
     Option.bind (lit [35] line) (\<lambda>r1.
     Option.bind (plus1 isspace r1) (\<lambda>r2.
     Option.bind (lit [31532] r2) (\<lambda>r3.
     Option.bind (plus1 is_digit r3) (\<lambda>r4.
     Option.bind (lit [31456] r4) title_group))))"

text \<open>
  \<open>H2_SPECIAL_ZERO_PATTERN\<close>: \<open>^##\s+\<close> U+96F6 U+3001 U+4E0A U+4F4D U+7C7B U+8BF4 U+660E \<open>$\<close>.
\<close>

definition H2_SPECIAL_ZERO_PATTERN :: "ustr \<Rightarrow> bool" where
  "H2_SPECIAL_ZERO_PATTERN line =
     (case Option.bind (lit [35, 35] line) (\<lambda>r1.
           Option.bind (plus1 isspace r1)
             (lit [38646, 12289, 19978, 20301, 31867, 35828, 26126])) of
        None \<Rightarrow> False
      | Some r \<Rightarrow> at_end r)"

text \<open>
  The alternatives of \<open>H2_MD_PATTERN\<close> in the order of the source: the Chinese
  numerals for 1 to 37 (U+4E00 is one, U+4E8C two, U+4E09 three, U+5341 ten), and as
  the last alternative a space followed by the Bengali digits U+09E9 U+09EE.
\<close>

definition H2_ordinals :: "ustr list" where
  "H2_ordinals =
     [[19968], [20108], [19977], [22235], [20116], [20845], [19971], [20843], [20061],
      [21313], [21313, 19968], [21313, 20108], [21313, 19977], [21313, 22235],
      [21313, 20116], [21313, 20845], [21313, 19971], [21313, 20843], [21313, 20061],
      [20108, 21313], [20108, 21313, 19968], [20108, 21313, 20108], [20108, 21313, 19977],
      [20108, 21313, 22235], [20108, 21313, 20116], [20108, 21313, 20845],
      [20108, 21313, 19971], [20108, 21313, 20843], [20108, 21313, 20061],
      [19977, 21313], [19977, 21313, 19968], [19977, 21313, 20108], [19977, 21313, 19977],
      [19977, 21313, 22235], [19977, 21313, 20116], [19977, 21313, 20845],
      [19977, 21313, 19971], [32, 2537, 2542]]"

text \<open>
  \<open>H2_MD_PATTERN\<close>: \<open>^##\s+(?:\<close>alternatives\<open>)\<close> U+3001 \<open>\s*(.+)$\<close>.  The last alternative
  starts with a space, so \<open>\s+\<close> may have to give characters back: \<open>h2_spaces k r\<close> tries
  \<open>k\<close>, \<open>k - 1\<close>, ..., 1 consumed characters, and at each position the alternatives in
  their order (\<open>h2_alternatives\<close>), each followed by the rest of the pattern.
\<close>

fun h2_alternatives :: "ustr list \<Rightarrow> ustr \<Rightarrow> ustr option" where
  "h2_alternatives [] r = None"
| "h2_alternatives (a # as) r =
     (case Option.bind (Option.bind (lit a r) (lit [12289])) title_group of
        Some g \<Rightarrow> Some g
      | None \<Rightarrow> h2_alternatives as r)"

fun h2_spaces :: "nat \<Rightarrow> ustr \<Rightarrow> ustr option" where
  "h2_spaces 0 r = None"
| "h2_spaces (Suc k) r =
     (case h2_alternatives H2_ordinals (drop (Suc k) r) of
        Some g \<Rightarrow> Some g
      | None \<Rightarrow> h2_spaces k r)"

definition H2_MD_PATTERN :: "ustr \<Rightarrow> ustr option" where
  "H2_MD_PATTERN line =
     Option.bind (lit [35, 35] line) (\<lambda>r. h2_spaces (length (takeWhile isspace r)) r)"

text \<open>\<open>H3_SPECIAL_ZERO_PATTERN\<close>: \<open>^###\s+0\.\<close> U+4E0A U+4F4D U+7C7B U+8BF4 U+660E \<open>$\<close>.\<close>

definition H3_SPECIAL_ZERO_PATTERN :: "ustr \<Rightarrow> bool" where
  "H3_SPECIAL_ZERO_PATTERN line =
     (case Option.bind (lit [35, 35, 35] line) (\<lambda>r1.
           Option.bind (plus1 isspace r1)
             (lit [48, 46, 19978, 20301, 31867, 35828, 26126])) of
        None \<Rightarrow> False
      | Some r \<Rightarrow> at_end r)"

text \<open>
  The numeral group \<open>([1-9]|1[0-9]|2[0-5])\<close> of \<open>H3_MD_PATTERN\<close>: the remainders after
  each alternative that matches, in the order of the alternatives.
\<close>

definition h3_numeral :: "ustr \<Rightarrow> ustr list" where
  "h3_numeral r =
     (case r of
        [] \<Rightarrow> []
      | c # r1 \<Rightarrow>
          (if 49 \<le> c \<and> c \<le> 57 then [r1] else []) @
          (case r1 of
             [] \<Rightarrow> []
           | d # r2 \<Rightarrow>
               (if c = 49 \<and> is_digit d then [r2] else []) @
               (if c = 50 \<and> 48 \<le> d \<and> d \<le> 53 then [r2] else [])))"

fun first_title :: "ustr list \<Rightarrow> ustr option" where
  "first_title [] = None"
| "first_title (r # rs) =
     (case Option.bind (lit [46] r) title_group of
        Some g \<Rightarrow> Some g
      | None \<Rightarrow> first_title rs)"

text \<open>
  \<open>H3_MD_PATTERN\<close>: \<open>^###\s*([1-9]|1[0-9]|2[0-5])\.\s*(.+)$\<close>; the result is group 2, the
  only group the parser reads.
\<close>

definition H3_MD_PATTERN :: "ustr \<Rightarrow> ustr option" where
  "H3_MD_PATTERN line =
     Option.bind (lit [35, 35, 35] line) (\<lambda>r1.
     Option.bind (star isspace r1) (\<lambda>r2. first_title (h3_numeral r2)))"

section \<open>parse_markdown\<close>

text \<open>
  The parser builds dictionaries and keeps several references to the same dictionary
  (\<open>current_province\<close>, \<open>current_city\<close>, \<open>current_district\<close>, \<open>active_entity\<close>, the
  entries of \<open>processed_data\<close> and of each \<open>children\<close> list), and it writes through them.
  The model keeps the dictionaries in a heap, a list indexed by address, and every
  reference is an address.  The state is the local variables of \<open>parse_markdown\<close>.
\<close>

datatype field = text_general_key | text_detail_key

type_synonym node = "nat list option region"

record pstate =
  heap :: "node list"
  processed_data :: "nat list"
  current_province :: "nat option"
  current_city :: "nat option"
  current_district :: "nat option"
  active_entity :: "nat option"
  active_field :: field
  current_text_buffer :: "ustr list"

definition initial :: pstate where
  "initial =
     \<lparr>heap = [], processed_data = [], current_province = None, current_city = None,
      current_district = None, active_entity = None, active_field = text_detail_key,
      current_text_buffer = []\<rparr>"

text \<open>\<open>"\n".join(lines)\<close>.\<close>

fun join_nl :: "ustr list \<Rightarrow> ustr" where
  "join_nl [] = []"
| "join_nl [l] = l"
| "join_nl (l # m # ls) = l @ [10] @ join_nl (m # ls)"

text \<open>
  \<open>entity[key]\<close> and the two assignments of \<open>flush_buffer\<close> to it.  Every dictionary the
  parser creates has both text keys with a string, so the branch of the source that
  first stores an empty string under a missing key is never taken.
\<close>

definition get_text :: "field \<Rightarrow> 'c region \<Rightarrow> ustr" where
  "get_text k e = (case k of text_general_key \<Rightarrow> text_general e | text_detail_key \<Rightarrow> text_detail e)"

definition set_text :: "field \<Rightarrow> ustr \<Rightarrow> 'c region \<Rightarrow> 'c region" where
  "set_text k t e =
     (case k of
        text_general_key \<Rightarrow> e\<lparr>text_general := t\<rparr>
      | text_detail_key \<Rightarrow> e\<lparr>text_detail := t\<rparr>)"

definition add_text :: "field \<Rightarrow> ustr \<Rightarrow> 'c region \<Rightarrow> 'c region" where
  "add_text k text_to_add e =
     (if get_text k e \<noteq> [] then set_text k (get_text k e @ [10] @ text_to_add) e
      else set_text k text_to_add e)"

text \<open>
  \<open>flush_buffer\<close>.  Nothing happens, and the buffer is kept, when there is no active
  entity or the buffer is empty; otherwise the buffer is cleared, and its joined and
  stripped text, when not empty, is added to the active field of the active entity.
\<close>

definition flush_buffer :: "pstate \<Rightarrow> pstate" where
  "flush_buffer s =
     (case active_entity s of
        None \<Rightarrow> s
      | Some a \<Rightarrow>
          if current_text_buffer s = [] then s
          else
            let text_to_add = strip (join_nl (current_text_buffer s));
                s1 = (if text_to_add \<noteq> []
                      then s\<lparr>heap := (heap s)[a := add_text (active_field s) text_to_add (heap s ! a)]\<rparr>
                      else s)
            in s1\<lparr>current_text_buffer := []\<rparr>)"

text \<open>The three dictionary literals of the parser.\<close>

definition new_province :: "ustr \<Rightarrow> node" where
  "new_province province_name =
     \<lparr>name = province_name, level = 1, adcode = None, parent_name = None,
      parent_adcode = None, text_general = [], text_detail = [], geometry = None,
      children = Some []\<rparr>"

definition new_city :: "ustr \<Rightarrow> node \<Rightarrow> node" where
  "new_city city_name prov =
     \<lparr>name = city_name, level = 2, adcode = None, parent_name = Some (name prov),
      parent_adcode = adcode prov, text_general = [], text_detail = [], geometry = None,
      children = Some []\<rparr>"

definition new_district :: "ustr \<Rightarrow> node \<Rightarrow> node" where
  "new_district h3_name cty =
     \<lparr>name = h3_name, level = 3, adcode = None, parent_name = Some (name cty),
      parent_adcode = adcode cty, text_general = [], text_detail = [], geometry = None,
      children = None\<rparr>"

text \<open>
  \<open>entity["children"].append(child)\<close>, after \<open>entity["children"] = []\<close> when the key is
  missing (the source has this guard for the city; a province always has the key).
\<close>

definition append_child :: "nat \<Rightarrow> node \<Rightarrow> node" where
  "append_child a e =
     e\<lparr>children := Some ((case children e of None \<Rightarrow> [] | Some cs \<Rightarrow> cs) @ [a])\<rparr>"

text \<open>The five branches of the loop body that end in \<open>continue\<close>, and the last line.\<close>

definition on_h1 :: "ustr \<Rightarrow> pstate \<Rightarrow> pstate" where
  "on_h1 g s =
     (let s1 = flush_buffer s; a = length (heap s1)
      in s1\<lparr>heap := heap s1 @ [new_province (strip g)],
            processed_data := processed_data s1 @ [a],
            current_province := Some a, active_entity := Some a,
            active_field := text_detail_key, current_city := None,
            current_district := None\<rparr>)"

definition on_h2_zero :: "nat \<Rightarrow> pstate \<Rightarrow> pstate" where
  "on_h2_zero p s =
     (let s1 = flush_buffer s
      in s1\<lparr>active_entity := Some p, active_field := text_general_key\<rparr>)"

definition on_h2 :: "nat \<Rightarrow> ustr \<Rightarrow> pstate \<Rightarrow> pstate" where
  "on_h2 p g s =
     (let s1 = flush_buffer s; a = length (heap s1);
          h = heap s1 @ [new_city (strip g) (heap s1 ! p)]
      in s1\<lparr>heap := h[p := append_child a (h ! p)],
            current_city := Some a, active_entity := Some a,
            active_field := text_detail_key, current_district := None\<rparr>)"

definition on_h3_zero :: "nat \<Rightarrow> pstate \<Rightarrow> pstate" where
  "on_h3_zero c s =
     (let s1 = flush_buffer s
      in s1\<lparr>active_entity := Some c, active_field := text_general_key\<rparr>)"

definition on_h3 :: "nat \<Rightarrow> ustr \<Rightarrow> pstate \<Rightarrow> pstate" where
  "on_h3 c g s =
     (let s1 = flush_buffer s; a = length (heap s1);
          h = heap s1 @ [new_district (strip g) (heap s1 ! c)]
      in s1\<lparr>heap := h[c := append_child a (h ! c)],
            current_district := Some a, active_entity := Some a,
            active_field := text_detail_key\<rparr>)"

definition on_text :: "ustr \<Rightarrow> pstate \<Rightarrow> pstate" where
  "on_text line_content s =
     s\<lparr>current_text_buffer := current_text_buffer s @ [strip_nl line_content]\<rparr>"

text \<open>
  The body of the loop over the lines of the file.  A blank line is skipped; the
  patterns are tried in the order of the source, the four lower ones only when the
  reference they need is not \<open>None\<close>, which is also the only place where the address
  is taken out of the reference.
\<close>

definition process_line :: "pstate \<Rightarrow> ustr \<Rightarrow> pstate" where
  "process_line s line_content =
     (let line = strip line_content in
      if line = [] then s
      else
        case H1_MD_PATTERN line of
          Some g \<Rightarrow> on_h1 g s
        | None \<Rightarrow>
            if current_province s \<noteq> None \<and> H2_SPECIAL_ZERO_PATTERN line
            then on_h2_zero (the (current_province s)) s
            else if current_province s \<noteq> None \<and> H2_MD_PATTERN line \<noteq> None
            then on_h2 (the (current_province s)) (the (H2_MD_PATTERN line)) s
            else if current_city s \<noteq> None \<and> H3_SPECIAL_ZERO_PATTERN line
            then on_h3_zero (the (current_city s)) s
            else if current_city s \<noteq> None \<and> H3_MD_PATTERN line \<noteq> None
            then on_h3 (the (current_city s)) (the (H3_MD_PATTERN line)) s
            else on_text line_content s)"

text \<open>
  The value returned: the dictionaries reachable from \<open>processed_data\<close>, read from the
  heap three levels deep.
\<close>

definition with_children :: "'d \<Rightarrow> 'c region \<Rightarrow> 'd region" where
  "with_children cs e =
     \<lparr>name = name e, level = level e, adcode = adcode e, parent_name = parent_name e,
      parent_adcode = parent_adcode e, text_general = text_general e,
      text_detail = text_detail e, geometry = geometry e, children = cs\<rparr>"

definition child_addresses :: "node \<Rightarrow> nat list" where
  "child_addresses e = (case children e of None \<Rightarrow> [] | Some cs \<Rightarrow> cs)"

definition read_district :: "node list \<Rightarrow> nat \<Rightarrow> district" where
  "read_district h a = with_children () (h ! a)"

definition read_city :: "node list \<Rightarrow> nat \<Rightarrow> city" where
  "read_city h a = with_children (map (read_district h) (child_addresses (h ! a))) (h ! a)"

definition read_province :: "node list \<Rightarrow> nat \<Rightarrow> province" where
  "read_province h a = with_children (map (read_city h) (child_addresses (h ! a))) (h ! a)"

definition forest_of :: "pstate \<Rightarrow> ProcessedData" where
  "forest_of s = map (read_province (heap s)) (processed_data s)"

text \<open>
  \<open>parse_markdown\<close> on the lines of the file as the iteration over the file yields
  them (each with its line terminator), or on \<open>None\<close> when the file does not exist:
  the \<open>FileNotFoundError\<close> handler returns the empty list.  The loop body raises
  nothing; an error of the file itself while it is read (its decoding, say), for which
  the second handler also returns the empty list, is outside the model.
\<close>

definition parse_lines :: "ustr list \<Rightarrow> pstate" where
  "parse_lines ls = flush_buffer (foldl process_line initial ls)"

definition parse_markdown :: "ustr list option \<Rightarrow> ProcessedData" where
  "parse_markdown f = (case f of None \<Rightarrow> [] | Some ls \<Rightarrow> forest_of (parse_lines ls))"

text \<open>
  A line of narrative text in any state: a blank line, or a line whose first character
  after stripping is not \<open>#\<close>, with which every heading pattern starts.
\<close>

definition plain :: "ustr \<Rightarrow> bool" where
  "plain l \<longleftrightarrow> (case strip l of [] \<Rightarrow> True | c # _ \<Rightarrow> c \<noteq> 35)"

section \<open>The reference tables\<close>

text \<open>
  A \<open>GeoDataFrame\<close> is a list of column names and a list of rows.  The program reads a
  row in three ways.  \<open>table[column].astype(str)\<close> reads the cell as a string
  (\<open>text_cell\<close>): every cell has one, a null cell the text of its null.  \<open>row[column]\<close>
  and \<open>table[column] == adcode\<close> read the cell as an identifier (\<open>code_cell\<close>), and
  \<open>row.geometry\<close> reads the shape of the row (\<open>geometry_cell\<close>): a null cell (\<open>None\<close>,
  \<open>NaN\<close>) and a null shape are \<open>None\<close>, and copied to a region they leave the field
  without a value.  A cell of a column that the table does not have is never read: the
  model raises the error of the source there, or takes the \<open>continue\<close> of the source.
\<close>

record gdf_row =
  text_cell :: "string \<Rightarrow> ustr"
  code_cell :: "string \<Rightarrow> adcode option"
  geometry_cell :: "geometry option"

record GeoDataFrame =
  columns :: "string list"
  rows :: "gdf_row list"

text \<open>\<open>DataFrame.empty\<close>: one of the two axes has length 0.\<close>

definition gdf_empty :: "GeoDataFrame \<Rightarrow> bool" where
  "gdf_empty t \<longleftrightarrow> rows t = [] \<or> columns t = []"

text \<open>
  \<open>shp_data\<close> is a dictionary from a key to a table or \<open>None\<close>: \<open>shp k = None\<close> when the
  key is absent, \<open>shp k = Some None\<close> when it holds \<open>None\<close>.
\<close>

type_synonym shp_data = "string \<Rightarrow> GeoDataFrame option option"

datatype error = KeyError string | AttributeError string

section \<open>link_data\<close>

text \<open>
  \<open>key in shp_data and shp_data[key] is not None and not shp_data[key].empty\<close>: the
  table when the three tests pass.
\<close>

definition loaded :: "shp_data \<Rightarrow> string \<Rightarrow> GeoDataFrame option" where
  "loaded shp k =
     (case shp k of
        None \<Rightarrow> None
      | Some None \<Rightarrow> None
      | Some (Some t) \<Rightarrow> if gdf_empty t then None else Some t)"

text \<open>
  \<open>essential_shp_loaded_and_not_empty\<close>, with the three tables \<open>gdf_provinces\<close>,
  \<open>gdf_cities\<close> and \<open>gdf_districts\<close> when it is true.
\<close>

definition essential :: "shp_data \<Rightarrow> (GeoDataFrame \<times> GeoDataFrame \<times> GeoDataFrame) option" where
  "essential shp =
     (case loaded shp ''province'' of
        None \<Rightarrow> None
      | Some gp \<Rightarrow>
          (case loaded shp ''city'' of
             None \<Rightarrow> None
           | Some gc \<Rightarrow>
               (case loaded shp ''district'' of
                  None \<Rightarrow> None
                | Some gd \<Rightarrow> Some (gp, gc, gd))))"

text \<open>
  \<open>table[table[name_col].astype(str).apply(normalize_name) == normalized]\<close>: the rows
  whose normalized name is the normalized name sought, in table order.
\<close>

definition matching_name :: "string \<Rightarrow> ustr \<Rightarrow> gdf_row list \<Rightarrow> gdf_row list" where
  "matching_name name_col normalized rs =
     filter (\<lambda>r. normalize_name (Some (text_cell r name_col)) = normalized) rs"

text \<open>
  The elementwise \<open>==\<close> of a column with a value: a null cell equals nothing, and nothing
  equals an identifier that is unset.
\<close>

definition cell_eq :: "adcode option \<Rightarrow> adcode option \<Rightarrow> bool" where
  "cell_eq cell v \<longleftrightarrow> cell \<noteq> None \<and> cell = v"

text \<open>
  \<open>table[table[parent_col] == entity["adcode"]]\<close>: the rows whose parent identifier is
  the identifier stored on the parent region.
\<close>

definition potential :: "string \<Rightarrow> adcode option \<Rightarrow> gdf_row list \<Rightarrow> gdf_row list" where
  "potential parent_col parent rs = filter (\<lambda>r. cell_eq (code_cell r parent_col) parent) rs"

text \<open>
  The regions are dictionaries that \<open>link_data\<close> writes in place, so what is written
  before an exception stays written.  A step of the linker therefore gives the region
  as it stands afterwards, together with the exception that it raises, if any.

  The two assignments from the first matched row, \<open>entity["adcode"] = row[code_col]\<close> and
  \<open>entity["geometry"] = row.geometry\<close>, copy the two cells as they are.  \<open>row[code_col]\<close>
  raises \<open>KeyError\<close> when the table has no such column, before anything is written;
  \<open>row.geometry\<close> raises \<open>AttributeError\<close> when the row has no entry \<open>geometry\<close>, after the
  identifier is written.
\<close>

definition assign_row ::
  "GeoDataFrame \<Rightarrow> string \<Rightarrow> gdf_row \<Rightarrow> 'c region \<Rightarrow> 'c region \<times> error option" where
  "assign_row t code_col r e =
     (if code_col \<notin> set (columns t) then (e, Some (KeyError code_col))
      else if ''geometry'' \<notin> set (columns t)
      then (e\<lparr>adcode := code_cell r code_col\<rparr>, Some (AttributeError ''geometry''))
      else (e\<lparr>adcode := code_cell r code_col, geometry := geometry_cell r\<rparr>, None))"

text \<open>
  A \<open>for\<close> loop over a list of regions whose body updates the region or raises: the
  first exception ends the loop, and the regions after it are as they were.
\<close>

fun for_each :: "('a \<Rightarrow> 'a \<times> error option) \<Rightarrow> 'a list \<Rightarrow> 'a list \<times> error option" where
  "for_each body [] = ([], None)"
| "for_each body (x # xs) =
     (case body x of
        (y, Some err) \<Rightarrow> (y # xs, Some err)
      | (y, None) \<Rightarrow> (case for_each body xs of (ys, err) \<Rightarrow> (y # ys, err)))"

text \<open>The body of the innermost loop, for \<open>district_md\<close> under the linked \<open>city_md\<close>.\<close>

definition link_district :: "GeoDataFrame \<Rightarrow> city \<Rightarrow> district \<Rightarrow> district \<times> error option" where
  "link_district gdf_districts city_md district_md =
     (let dist_name_md_normalized = normalize_name (Some (name district_md)) in
      if ''dt_name'' \<notin> set (columns gdf_districts) \<or> ''ct_adcode'' \<notin> set (columns gdf_districts)
      then (district_md, None)
      else
        case matching_name ''dt_name'' dist_name_md_normalized
               (potential ''ct_adcode'' (adcode city_md) (rows gdf_districts)) of
          [] \<Rightarrow> (district_md, None)
        | district_shp_row # _ \<Rightarrow> assign_row gdf_districts ''dt_adcode'' district_shp_row district_md)"

text \<open>The body of the middle loop, for \<open>city_md\<close> under the linked \<open>province_md\<close>.\<close>

definition link_city ::
  "GeoDataFrame \<Rightarrow> GeoDataFrame \<Rightarrow> province \<Rightarrow> city \<Rightarrow> city \<times> error option" where
  "link_city gdf_cities gdf_districts province_md city_md =
     (let city_name_md_normalized = normalize_name (Some (name city_md)) in
      if ''ct_name'' \<notin> set (columns gdf_cities) \<or> ''pr_adcode'' \<notin> set (columns gdf_cities)
      then (city_md, None)
      else
        case matching_name ''ct_name'' city_name_md_normalized
               (potential ''pr_adcode'' (adcode province_md) (rows gdf_cities)) of
          [] \<Rightarrow> (city_md, None)
        | city_shp_row # _ \<Rightarrow>
            (case assign_row gdf_cities ''ct_adcode'' city_shp_row city_md of
               (city1, Some err) \<Rightarrow> (city1, Some err)
             | (city1, None) \<Rightarrow>
                 (case for_each (link_district gdf_districts city1) (children city1) of
                    (ds, err) \<Rightarrow> (city1\<lparr>children := ds\<rparr>, err))))"

text \<open>The body of the outer loop, for \<open>province_md\<close>.\<close>

definition link_province ::
  "GeoDataFrame \<Rightarrow> GeoDataFrame \<Rightarrow> GeoDataFrame \<Rightarrow> province \<Rightarrow> province \<times> error option" where
  "link_province gdf_provinces gdf_cities gdf_districts province_md =
     (let prov_name_md_normalized = normalize_name (Some (name province_md)) in
      if ''pr_name'' \<notin> set (columns gdf_provinces) then (province_md, None)
      else
        case matching_name ''pr_name'' prov_name_md_normalized (rows gdf_provinces) of
          [] \<Rightarrow> (province_md, None)
        | province_shp_row # _ \<Rightarrow>
            (case assign_row gdf_provinces ''pr_adcode'' province_shp_row province_md of
               (province1, Some err) \<Rightarrow> (province1, Some err)
             | (province1, None) \<Rightarrow>
                 (case for_each (link_city gdf_cities gdf_districts province1) (children province1) of
                    (cs, err) \<Rightarrow> (province1\<lparr>children := cs\<rparr>, err))))"

text \<open>
  \<open>link_data\<close>: the forest is returned as it is when it is empty or a table is missing
  or empty; otherwise every province is linked in turn.  The result is the forest
  \<open>md_data\<close> as \<open>link_data\<close> leaves it, and the exception with which it ends, if any:
  \<open>link_data\<close> returns, and returns that forest, when there is none.
\<close>

definition link_data :: "ProcessedData \<Rightarrow> shp_data \<Rightarrow> ProcessedData \<times> error option" where
  "link_data md_data shp =
     (case essential shp of
        None \<Rightarrow> (md_data, None)
      | Some (gdf_provinces, gdf_cities, gdf_districts) \<Rightarrow>
          if md_data = [] then (md_data, None)
          else for_each (link_province gdf_provinces gdf_cities gdf_districts) md_data)"

section \<open>The matches in the words of the specification\<close>

text \<open>
  The specification describes a match as the first row, in table order, whose
  normalized name equals the normalized name of the region, and for the two lower tiers
  as the first such row among those whose parent-identifier column equals the identifier
  of the parent region.  These two functions say that with \<open>find\<close>; the source filters
  the table twice and takes row 0 of the result.
\<close>

definition first_named :: "string \<Rightarrow> ustr \<Rightarrow> GeoDataFrame \<Rightarrow> gdf_row option" where
  "first_named name_col nm t =
     find (\<lambda>r. normalize_name (Some (text_cell r name_col)) = normalize_name (Some nm)) (rows t)"

definition first_scoped ::
  "string \<Rightarrow> string \<Rightarrow> adcode option \<Rightarrow> ustr \<Rightarrow> GeoDataFrame \<Rightarrow> gdf_row option" where
  "first_scoped parent_col name_col parent nm t =
     find (\<lambda>r. cell_eq (code_cell r parent_col) parent \<and>
               normalize_name (Some (text_cell r name_col)) = normalize_name (Some nm)) (rows t)"

text \<open>
  A region misses when the table lacks a column that the loop body tests for, so that
  the body takes its \<open>continue\<close>, or when no row matches.
\<close>

definition province_miss :: "GeoDataFrame \<Rightarrow> province \<Rightarrow> bool" where
  "province_miss gp p \<longleftrightarrow>
     ''pr_name'' \<notin> set (columns gp) \<or> first_named ''pr_name'' (name p) gp = None"

definition city_miss :: "GeoDataFrame \<Rightarrow> adcode option \<Rightarrow> city \<Rightarrow> bool" where
  "city_miss gc parent c \<longleftrightarrow>
     ''ct_name'' \<notin> set (columns gc) \<or> ''pr_adcode'' \<notin> set (columns gc) \<or>
     first_scoped ''pr_adcode'' ''ct_name'' parent (name c) gc = None"

definition district_miss :: "GeoDataFrame \<Rightarrow> adcode option \<Rightarrow> district \<Rightarrow> bool" where
  "district_miss gd parent d \<longleftrightarrow>
     ''dt_name'' \<notin> set (columns gd) \<or> ''ct_adcode'' \<notin> set (columns gd) \<or>
     first_scoped ''ct_adcode'' ''dt_name'' parent (name d) gd = None"

section \<open>Properties of a forest\<close>

text \<open>
  \<open>clear_province\<close> forgets the identifier and the geometry of a level-1 region and of
  all its descendants: two forests are equal after it when they have the same regions
  in the same order with the same name, level, parent fields and texts.
\<close>

definition clear_link :: "'c region \<Rightarrow> 'c region" where
  "clear_link e = e\<lparr>adcode := None, geometry := None\<rparr>"

definition clear_city :: "city \<Rightarrow> city" where
  "clear_city c = clear_link (c\<lparr>children := map clear_link (children c)\<rparr>)"

definition clear_province :: "province \<Rightarrow> province" where
  "clear_province p = clear_link (p\<lparr>children := map clear_city (children p)\<rparr>)"

text \<open>
  \<open>set_only e e'\<close>: from \<open>e\<close> to \<open>e'\<close> the identifier changes from unset to set if it
  changes at all, and so does the geometry; and so for the descendants, position by
  position.
\<close>

definition set_only :: "'c region \<Rightarrow> 'd region \<Rightarrow> bool" where
  "set_only e e' \<longleftrightarrow>
     (adcode e' \<noteq> adcode e \<longrightarrow> adcode e = None \<and> adcode e' \<noteq> None) \<and>
     (geometry e' \<noteq> geometry e \<longrightarrow> geometry e = None \<and> geometry e' \<noteq> None)"

definition set_only_city :: "city \<Rightarrow> city \<Rightarrow> bool" where
  "set_only_city c c' \<longleftrightarrow> set_only c c' \<and> list_all2 set_only (children c) (children c')"

definition set_only_province :: "province \<Rightarrow> province \<Rightarrow> bool" where
  "set_only_province p p' \<longleftrightarrow>
     set_only p p' \<and> list_all2 set_only_city (children p) (children p')"

text \<open>
  \<open>copied t col e e'\<close>: from \<open>e\<close> to \<open>e'\<close> the identifier and the geometry are both kept,
  or they are the cell \<open>col\<close> and the shape of one row of the table \<open>t\<close>; and so for the
  descendants, position by position, each tier with its table.
\<close>

definition copied :: "GeoDataFrame \<Rightarrow> string \<Rightarrow> 'c region \<Rightarrow> 'd region \<Rightarrow> bool" where
  "copied t col e e' \<longleftrightarrow>
     (adcode e' = adcode e \<and> geometry e' = geometry e) \<or>
     (\<exists>r\<in>set (rows t). adcode e' = code_cell r col \<and> geometry e' = geometry_cell r)"

definition copied_city :: "GeoDataFrame \<Rightarrow> GeoDataFrame \<Rightarrow> city \<Rightarrow> city \<Rightarrow> bool" where
  "copied_city gc gd c c' \<longleftrightarrow>
     copied gc ''ct_adcode'' c c' \<and> list_all2 (copied gd ''dt_adcode'') (children c) (children c')"

definition copied_province ::
  "GeoDataFrame \<Rightarrow> GeoDataFrame \<Rightarrow> GeoDataFrame \<Rightarrow> province \<Rightarrow> province \<Rightarrow> bool" where
  "copied_province gp gc gd p p' \<longleftrightarrow>
     copied gp ''pr_adcode'' p p' \<and> list_all2 (copied_city gc gd) (children p) (children p')"

text \<open>
  Every row of a table holds an identifier in the column \<open>col\<close> and a shape, or neither.
\<close>

definition rows_paired :: "string \<Rightarrow> GeoDataFrame \<Rightarrow> bool" where
  "rows_paired col t \<longleftrightarrow>
     list_all (\<lambda>r. (code_cell r col = None) = (geometry_cell r = None)) (rows t)"

text \<open>
  So it is with each of the three tables that \<open>link_data\<close> reads and the identifier
  column that it copies from; nothing is read when a table is missing or empty.
\<close>

definition tables_paired :: "shp_data \<Rightarrow> bool" where
  "tables_paired shp \<longleftrightarrow>
     (case essential shp of
        None \<Rightarrow> True
      | Some (gp, gc, gd) \<Rightarrow>
          rows_paired ''pr_adcode'' gp \<and> rows_paired ''ct_adcode'' gc \<and>
          rows_paired ''dt_adcode'' gd)"

text \<open>A region is unlinked when its identifier and its geometry are both unset.\<close>

definition unlinked :: "'c region \<Rightarrow> bool" where
  "unlinked e \<longleftrightarrow> adcode e = None \<and> geometry e = None"

definition unlinked_city :: "city \<Rightarrow> bool" where
  "unlinked_city c \<longleftrightarrow> unlinked c \<and> list_all unlinked (children c)"

definition unlinked_province :: "province \<Rightarrow> bool" where
  "unlinked_province p \<longleftrightarrow> unlinked p \<and> list_all unlinked_city (children p)"

text \<open>The identifier of a region is set if and only if its geometry is set.\<close>

definition paired :: "'c region \<Rightarrow> bool" where
  "paired e \<longleftrightarrow> (adcode e = None) = (geometry e = None)"

definition paired_city :: "city \<Rightarrow> bool" where
  "paired_city c \<longleftrightarrow> paired c \<and> list_all paired (children c)"

definition paired_province :: "province \<Rightarrow> bool" where
  "paired_province p \<longleftrightarrow> paired p \<and> list_all paired_city (children p)"

text \<open>
  The invariant of the parser's heap: every dictionary is unlinked, and every address
  stored in a \<open>children\<close> list or in \<open>processed_data\<close> is an address of the heap.
\<close>

definition node_ok :: "nat \<Rightarrow> node \<Rightarrow> bool" where
  "node_ok n e \<longleftrightarrow> unlinked e \<and> list_all (\<lambda>a. a < n) (child_addresses e)"

definition heap_ok :: "pstate \<Rightarrow> bool" where
  "heap_ok s \<longleftrightarrow>
     list_all (node_ok (length (heap s))) (heap s) \<and>
     list_all (\<lambda>a. a < length (heap s)) (processed_data s)"

section \<open>A worked example\<close>

text \<open>
  Three small tables and the forest of a five-line document, used to run the
  definitions.  The city and district tables hold the same name under two parents, and
  twice under one parent.  \<open>table_row\<close> builds a row from its text cells, its
  identifier cells and its shape; an identifier cell that is not listed is null.
\<close>

definition table_row ::
  "(string \<times> ustr) list \<Rightarrow> (string \<times> adcode) list \<Rightarrow> geometry option \<Rightarrow> gdf_row" where
  "table_row texts codes g =
     \<lparr>text_cell = (\<lambda>c. case map_of texts c of None \<Rightarrow> [] | Some v \<Rightarrow> v),
      code_cell = map_of codes,
      geometry_cell = g\<rparr>"

definition row_guangxi :: gdf_row where
  "row_guangxi = table_row [(''pr_name'', ascii ''Guangxi'')] [(''pr_adcode'', 45)] (Some (Geometry 1))"

definition row_guangdong :: gdf_row where
  "row_guangdong = table_row [(''pr_name'', ascii ''Guangdong'' @ [30465])] [(''pr_adcode'', 44)] (Some (Geometry 2))"

definition ex_provinces :: GeoDataFrame where
  "ex_provinces =
     \<lparr>columns = [''pr_name'', ''pr_adcode'', ''geometry''], rows = [row_guangxi, row_guangdong]\<rparr>"

definition city_elsewhere :: gdf_row where
  "city_elsewhere =
     table_row [(''ct_name'', ascii ''Guangzhou'' @ [24066])]
       [(''ct_adcode'', 4599), (''pr_adcode'', 45)] (Some (Geometry 3))"

definition city_first :: gdf_row where
  "city_first =
     table_row [(''ct_name'', ascii ''Guangzhou'' @ [24066])]
       [(''ct_adcode'', 4401), (''pr_adcode'', 44)] (Some (Geometry 4))"

definition city_second :: gdf_row where
  "city_second =
     table_row [(''ct_name'', ascii ''Guangzhou'')] [(''ct_adcode'', 4402), (''pr_adcode'', 44)] (Some (Geometry 5))"

definition ex_cities :: GeoDataFrame where
  "ex_cities =
     \<lparr>columns = [''ct_name'', ''ct_adcode'', ''pr_adcode'', ''geometry''],
      rows = [city_elsewhere, city_first, city_second]\<rparr>"

definition district_elsewhere :: gdf_row where
  "district_elsewhere =
     table_row [(''dt_name'', ascii ''Yuexiu'' @ [21306])]
       [(''dt_adcode'', 459901), (''ct_adcode'', 4599)] (Some (Geometry 6))"

definition district_first :: gdf_row where
  "district_first =
     table_row [(''dt_name'', ascii ''Yuexiu'' @ [21306])]
       [(''dt_adcode'', 440104), (''ct_adcode'', 4401)] (Some (Geometry 7))"

definition district_second :: gdf_row where
  "district_second =
     table_row [(''dt_name'', ascii ''Yuexiu'')] [(''dt_adcode'', 440199), (''ct_adcode'', 4401)] (Some (Geometry 8))"

definition ex_districts :: GeoDataFrame where
  "ex_districts =
     \<lparr>columns = [''dt_name'', ''dt_adcode'', ''ct_adcode'', ''geometry''],
      rows = [district_elsewhere, district_first, district_second]\<rparr>"

definition ex_shp :: shp_data where
  "ex_shp = (\<lambda>k. if k = ''province'' then Some (Some ex_provinces)
                  else if k = ''city'' then Some (Some ex_cities)
                  else if k = ''district'' then Some (Some ex_districts)
                  else None)"

definition ex_lines :: "ustr list" where
  "ex_lines =
     [ascii ''# '' @ [31532, 49, 31456] @ ascii '' Guangdong'' @ [10],
      ascii ''## '' @ [19968, 12289] @ ascii ''Guangzhou'' @ [10],
      ascii ''overview line'' @ [10],
      ascii ''### 1. Yuexiu'' @ [10],
      ascii ''detail line'' @ [10]]"

definition region_of ::
  "ustr \<Rightarrow> nat \<Rightarrow> ustr option \<Rightarrow> ustr \<Rightarrow> ustr \<Rightarrow> 'c \<Rightarrow> 'c region" where
  "region_of n l pn tg td cs =
     \<lparr>name = n, level = l, adcode = None, parent_name = pn, parent_adcode = None,
      text_general = tg, text_detail = td, geometry = None, children = cs\<rparr>"

definition ex_forest :: ProcessedData where
  "ex_forest =
     [region_of (ascii ''Guangdong'') 1 None [] []
        [region_of (ascii ''Guangzhou'') 2 (Some (ascii ''Guangdong'')) [] (ascii ''overview line'')
           [region_of (ascii ''Yuexiu'') 3 (Some (ascii ''Guangzhou'')) [] (ascii ''detail line'') ()]]]"

text \<open>
  The forest of the example after linking, and a forest with a region that misses at
  each of the three levels, before and after linking.
\<close>

definition ex_linked :: ProcessedData where
  "ex_linked =
     [(region_of (ascii ''Guangdong'') 1 None [] []
        [(region_of (ascii ''Guangzhou'') 2 (Some (ascii ''Guangdong'')) [] (ascii ''overview line'')
           [(region_of (ascii ''Yuexiu'') 3 (Some (ascii ''Guangzhou'')) [] (ascii ''detail line'') ())
              \<lparr>adcode := Some 440104, geometry := Some (Geometry 7)\<rparr>])
           \<lparr>adcode := Some 4401, geometry := Some (Geometry 4)\<rparr>])
        \<lparr>adcode := Some 44, geometry := Some (Geometry 2)\<rparr>]"

definition ex_misses :: ProcessedData where
  "ex_misses =
     [region_of (ascii ''Guangdong'') 1 None [] []
        [region_of (ascii ''Guangzhou'') 2 (Some (ascii ''Guangdong'')) [] []
           [region_of (ascii ''Tianhe'') 3 (Some (ascii ''Guangzhou'')) [] [] ()],
         region_of (ascii ''Foshan'') 2 (Some (ascii ''Guangdong'')) [] []
           [region_of (ascii ''Yuexiu'') 3 (Some (ascii ''Foshan'')) [] [] ()]],
      region_of (ascii ''Hunan'') 1 None [] []
        [region_of (ascii ''Guangzhou'') 2 (Some (ascii ''Hunan'')) [] []
           [region_of (ascii ''Yuexiu'') 3 (Some (ascii ''Guangzhou'')) [] [] ()]]]"

definition ex_misses_linked :: ProcessedData where
  "ex_misses_linked =
     [(region_of (ascii ''Guangdong'') 1 None [] []
        [(region_of (ascii ''Guangzhou'') 2 (Some (ascii ''Guangdong'')) [] []
           [region_of (ascii ''Tianhe'') 3 (Some (ascii ''Guangzhou'')) [] [] ()])
           \<lparr>adcode := Some 4401, geometry := Some (Geometry 4)\<rparr>,
         region_of (ascii ''Foshan'') 2 (Some (ascii ''Guangdong'')) [] []
           [region_of (ascii ''Yuexiu'') 3 (Some (ascii ''Foshan'')) [] [] ()]])
        \<lparr>adcode := Some 44, geometry := Some (Geometry 2)\<rparr>,
      region_of (ascii ''Hunan'') 1 None [] []
        [region_of (ascii ''Guangzhou'') 2 (Some (ascii ''Hunan'')) [] []
           [region_of (ascii ''Yuexiu'') 3 (Some (ascii ''Guangzhou'')) [] [] ()]]]"

text \<open>
  The tables of the example with a province table whose row for the first region has
  an identifier and a null shape, and the forest of the example after linking with it;
  and the tables with a province table that has no shapes at all, and the forest of the
  example as the linker leaves it there.
\<close>

definition row_no_shape :: gdf_row where
  "row_no_shape = table_row [(''pr_name'', ascii ''Guangdong'' @ [30465])] [(''pr_adcode'', 44)] None"

definition ex_shp_no_shape :: shp_data where
  "ex_shp_no_shape =
     ex_shp(''province'' :=
       Some (Some \<lparr>columns = [''pr_name'', ''pr_adcode'', ''geometry''], rows = [row_no_shape]\<rparr>))"

definition ex_linked_no_shape :: ProcessedData where
  "ex_linked_no_shape = [(ex_linked ! 0)\<lparr>geometry := None\<rparr>]"

definition ex_shp_no_geometry :: shp_data where
  "ex_shp_no_geometry =
     ex_shp(''province'' := Some (Some \<lparr>columns = [''pr_name'', ''pr_adcode''], rows = [row_guangdong]\<rparr>))"

definition ex_interrupted :: ProcessedData where
  "ex_interrupted = [(ex_forest ! 0)\<lparr>adcode := Some 44\<rparr>]"

text \<open>
  The state of the parser after the five lines of the example, before the final flush:
  the district is active and its line is still in the buffer.  Then a top-tier general
  marker, and three lines of text of which the second is blank.
\<close>

definition ex_state :: pstate where
  "ex_state =
     \<lparr>heap =
        [region_of (ascii ''Guangdong'') 1 None [] [] (Some [1]),
         region_of (ascii ''Guangzhou'') 2 (Some (ascii ''Guangdong'')) []
           (ascii ''overview line'') (Some [2]),
         region_of (ascii ''Yuexiu'') 3 (Some (ascii ''Guangzhou'')) [] [] None],
      processed_data = [0], current_province = Some 0, current_city = Some 1,
      current_district = Some 2, active_entity = Some 2, active_field = text_detail_key,
      current_text_buffer = [ascii ''detail line'']\<rparr>"

definition ex_marker :: ustr where
  "ex_marker = ascii ''## '' @ [38646, 12289, 19978, 20301, 31867, 35828, 26126, 10]"

definition ex_text :: "ustr list" where
  "ex_text = [ascii ''  about the province'' @ [10], [10], ascii ''more'' @ [10]]"

section \<open>Evaluation\<close>

text \<open>
  The definitions run by rewriting.  The case distinctions are evaluated once their
  subject is known (\<open>weak_congs\<close>), and \<open>normalize_name\<close> is unfolded on a string that
  is written out only.
\<close>

lemmas weak_congs = option.case_cong_weak list.case_cong_weak bool.case_cong_weak
  prod.case_cong_weak sum.case_cong_weak field.case_cong_weak nat.case_cong_weak

lemmas string_defs = ascii_def strip_def strip_nl_def strip_by_def isspace_def

lemmas pattern_defs = lit_def plus1_def star_def is_digit_def at_end_def title_at_def
  title_group_def H1_MD_PATTERN_def H2_SPECIAL_ZERO_PATTERN_def H2_MD_PATTERN_def
  H2_ordinals_def H3_SPECIAL_ZERO_PATTERN_def H3_MD_PATTERN_def h3_numeral_def

lemmas parser_defs = initial_def get_text_def set_text_def add_text_def flush_buffer_def
  new_province_def new_city_def new_district_def append_child_def on_h1_def on_h2_zero_def
  on_h2_def on_h3_zero_def on_h3_def on_text_def process_line_def with_children_def
  child_addresses_def read_district_def read_city_def read_province_def forest_of_def
  parse_lines_def parse_markdown_def

lemmas link_defs = gdf_empty_def loaded_def essential_def matching_name_def potential_def
  cell_eq_def assign_row_def link_district_def link_city_def link_province_def link_data_def

lemmas example_defs = ex_lines_def ex_forest_def region_of_def ex_shp_def ex_provinces_def
  ex_cities_def ex_districts_def table_row_def row_guangxi_def row_guangdong_def
  city_elsewhere_def city_first_def city_second_def district_elsewhere_def district_first_def
  district_second_def row_no_shape_def ex_shp_no_shape_def ex_shp_no_geometry_def

lemma normalize_name_Nil: "normalize_name (Some []) = []"
  by (simp add: normalize_name_def suffixes_to_remove_def remove_suffix_def endswith_def
      strip_def strip_by_def)

lemma normalize_name_Cons:
  "normalize_name (Some (x # xs)) = foldl remove_suffix (strip (x # xs)) suffixes_to_remove"
  by (simp add: normalize_name_def)

lemmas normalize_eval = normalize_name_Nil normalize_name_Cons suffixes_to_remove_def
  remove_suffix_def drop_last_def endswith_def

lemma ex_parse: "parse_markdown (Some ex_lines) = ex_forest"
  by (simp add: example_defs string_defs pattern_defs parser_defs Let_def cong: weak_congs)

lemma ex_essential: "essential ex_shp = Some (ex_provinces, ex_cities, ex_districts)"
  by (simp add: example_defs link_defs cong: weak_congs)

lemma ex_link: "link_data ex_forest ex_shp = (ex_linked, None)"
  by (simp add: example_defs ex_linked_def string_defs normalize_eval link_defs Let_def cong: weak_congs)

lemma ex_misses_link: "link_data ex_misses ex_shp = (ex_misses_linked, None)"
  by (simp add: example_defs ex_misses_def ex_misses_linked_def string_defs normalize_eval
      link_defs Let_def cong: weak_congs)

lemma ex_link_no_shape: "link_data ex_forest ex_shp_no_shape = (ex_linked_no_shape, None)"
  by (simp add: example_defs ex_linked_def ex_linked_no_shape_def string_defs normalize_eval
      link_defs Let_def cong: weak_congs)

lemma ex_link_raises:
  "link_data ex_forest ex_shp_no_geometry = (ex_interrupted, Some (AttributeError ''geometry''))"
  by (simp add: example_defs ex_interrupted_def string_defs normalize_eval link_defs Let_def
      cong: weak_congs)

lemma ex_state_reached: "foldl process_line initial ex_lines = ex_state"
  by (simp add: example_defs ex_state_def string_defs pattern_defs parser_defs Let_def
      cong: weak_congs)

lemma ex_marker_matches: "H2_SPECIAL_ZERO_PATTERN (strip ex_marker)"
  by (simp add: ex_marker_def string_defs pattern_defs cong: weak_congs)

lemma ex_text_plain: "\<forall>l\<in>set ex_text. plain l"
  by (simp add: ex_text_def plain_def string_defs cong: weak_congs)

section \<open>The loops of link_data\<close>

lemma for_each_None_iff:
  "for_each body xs = (ys, None) \<longleftrightarrow> list_all2 (\<lambda>x y. body x = (y, None)) xs ys"
proof (induction xs arbitrary: ys)
  case Nil
  show ?case by auto
next
  case (Cons x xs)
  obtain y e where b: "body x = (y, e)" by (cases "body x")
  show ?case
  proof (cases e)
    case None
    obtain zs e2 where f: "for_each body xs = (zs, e2)" by (cases "for_each body xs")
    have "for_each body (x # xs) = (ys, None) \<longleftrightarrow> ys = y # zs \<and> e2 = None"
      using b None f by auto
    also have "\<dots> \<longleftrightarrow> (\<exists>ys'. ys = y # ys' \<and> for_each body xs = (ys', None))"
      using f by auto
    also have "\<dots> \<longleftrightarrow> (\<exists>ys'. ys = y # ys' \<and> list_all2 (\<lambda>x y. body x = (y, None)) xs ys')"
      by (simp only: Cons.IH)
    also have "\<dots> \<longleftrightarrow> list_all2 (\<lambda>x y. body x = (y, None)) (x # xs) ys"
      using b None by (auto simp: list_all2_Cons1)
    finally show ?thesis .
  next
    case (Some err)
    with b have "for_each body (x # xs) \<noteq> (ys, None)" by simp
    moreover from b Some have "\<not> list_all2 (\<lambda>x y. body x = (y, None)) (x # xs) ys"
      by (auto simp: list_all2_Cons1)
    ultimately show ?thesis by simp
  qed
qed

lemma for_each_rel:
  assumes step: "\<And>x. R x (fst (body x))" and same: "\<And>x. R x x"
  shows "list_all2 R xs (fst (for_each body xs))"
proof (induction xs)
  case Nil
  show ?case by simp
next
  case (Cons x xs)
  obtain y e where b: "body x = (y, e)" by (cases "body x")
  from step [of x] b have y: "R x y" by simp
  show ?case
  proof (cases e)
    case None
    obtain zs e2 where "for_each body xs = (zs, e2)" by (cases "for_each body xs")
    with b None y Cons.IH show ?thesis by simp
  next
    case (Some err)
    with b y same show ?thesis by (simp add: list_all2_same)
  qed
qed

lemma list_all2_map_eq:
  "list_all2 (\<lambda>x y. f y = f x) xs ys \<Longrightarrow> map f ys = map f xs"
  by (induction rule: list_all2_induct) simp_all

lemma first_of_filter:
  "(case filter P xs of [] \<Rightarrow> a | x # _ \<Rightarrow> b x) = (case find P xs of None \<Rightarrow> a | Some x \<Rightarrow> b x)"
  by (induction xs) auto

lemma matching_potential:
  "matching_name name_col (normalize_name (Some nm)) (potential parent_col parent (rows t)) =
   filter (\<lambda>r. cell_eq (code_cell r parent_col) parent \<and>
               normalize_name (Some (text_cell r name_col)) = normalize_name (Some nm)) (rows t)"
  by (simp add: matching_name_def potential_def conj_commute)

lemma link_district_eq:
  assumes "''dt_name'' \<in> set (columns gd)" and "''ct_adcode'' \<in> set (columns gd)"
  shows "link_district gd c d =
     (case first_scoped ''ct_adcode'' ''dt_name'' (adcode c) (name d) gd of
        None \<Rightarrow> (d, None)
      | Some r \<Rightarrow> assign_row gd ''dt_adcode'' r d)"
  using assms
  by (simp add: link_district_def first_scoped_def matching_potential first_of_filter)

lemma link_district_skip:
  assumes "''dt_name'' \<notin> set (columns gd) \<or> ''ct_adcode'' \<notin> set (columns gd)"
  shows "link_district gd c d = (d, None)"
  using assms by (auto simp: link_district_def)

lemma link_city_eq:
  assumes "''ct_name'' \<in> set (columns gc)" and "''pr_adcode'' \<in> set (columns gc)"
  shows "link_city gc gd p c =
     (case first_scoped ''pr_adcode'' ''ct_name'' (adcode p) (name c) gc of
        None \<Rightarrow> (c, None)
      | Some r \<Rightarrow>
          (case assign_row gc ''ct_adcode'' r c of
             (c1, Some err) \<Rightarrow> (c1, Some err)
           | (c1, None) \<Rightarrow>
               (case for_each (link_district gd c1) (children c1) of
                  (ds, err) \<Rightarrow> (c1\<lparr>children := ds\<rparr>, err))))"
  using assms
  by (simp add: link_city_def first_scoped_def matching_potential first_of_filter)

lemma link_city_skip:
  assumes "''ct_name'' \<notin> set (columns gc) \<or> ''pr_adcode'' \<notin> set (columns gc)"
  shows "link_city gc gd p c = (c, None)"
  using assms by (auto simp: link_city_def)

lemma link_province_eq:
  assumes "''pr_name'' \<in> set (columns gp)"
  shows "link_province gp gc gd p =
     (case first_named ''pr_name'' (name p) gp of
        None \<Rightarrow> (p, None)
      | Some r \<Rightarrow>
          (case assign_row gp ''pr_adcode'' r p of
             (p1, Some err) \<Rightarrow> (p1, Some err)
           | (p1, None) \<Rightarrow>
               (case for_each (link_city gc gd p1) (children p1) of
                  (cs, err) \<Rightarrow> (p1\<lparr>children := cs\<rparr>, err))))"
  using assms
  by (simp add: link_province_def first_named_def matching_name_def first_of_filter)

lemma link_province_skip:
  assumes "''pr_name'' \<notin> set (columns gp)"
  shows "link_province gp gc gd p = (p, None)"
  using assms by (simp add: link_province_def)

lemma assign_row_None:
  assumes "assign_row t col r e = (e', None)"
  shows "e' = e\<lparr>adcode := code_cell r col, geometry := geometry_cell r\<rparr>"
  using assms by (auto simp: assign_row_def split: if_splits)

lemma link_data_None:
  assumes "link_data md shp = (md', None)" and "essential shp = Some (gp, gc, gd)"
  shows "list_all2 (\<lambda>p p'. link_province gp gc gd p = (p', None)) md md'"
proof (cases "md = []")
  case True
  with assms show ?thesis by (auto simp: link_data_def)
next
  case False
  with assms show ?thesis by (simp add: link_data_def for_each_None_iff)
qed

lemma link_district_adcode:
  "adcode c = adcode c2 \<Longrightarrow> link_district gd c d = link_district gd c2 d"
  by (simp add: link_district_def)

lemma link_city_adcode:
  "adcode p = adcode p2 \<Longrightarrow> link_city gc gd p c = link_city gc gd p2 c"
  by (simp add: link_city_def)

lemma link_district_miss:
  assumes "district_miss gd (adcode c) d"
  shows "link_district gd c d = (d, None)"
proof (cases "''dt_name'' \<in> set (columns gd) \<and> ''ct_adcode'' \<in> set (columns gd)")
  case False
  then show ?thesis by (intro link_district_skip) auto
next
  case True
  with assms have "first_scoped ''ct_adcode'' ''dt_name'' (adcode c) (name d) gd = None"
    by (simp add: district_miss_def)
  with True show ?thesis by (simp add: link_district_eq)
qed

lemma link_city_miss:
  assumes "city_miss gc (adcode p) c"
  shows "link_city gc gd p c = (c, None)"
proof (cases "''ct_name'' \<in> set (columns gc) \<and> ''pr_adcode'' \<in> set (columns gc)")
  case False
  then show ?thesis by (intro link_city_skip) auto
next
  case True
  with assms have "first_scoped ''pr_adcode'' ''ct_name'' (adcode p) (name c) gc = None"
    by (simp add: city_miss_def)
  with True show ?thesis by (simp add: link_city_eq)
qed

lemma link_province_miss:
  assumes "province_miss gp p"
  shows "link_province gp gc gd p = (p, None)"
proof (cases "''pr_name'' \<in> set (columns gp)")
  case False
  then show ?thesis by (rule link_province_skip)
next
  case True
  with assms have "first_named ''pr_name'' (name p) gp = None"
    by (simp add: province_miss_def)
  with True show ?thesis by (simp add: link_province_eq)
qed

lemma link_district_result:
  assumes "link_district gd c d = (d', None)"
    and "''dt_name'' \<in> set (columns gd)" and "''ct_adcode'' \<in> set (columns gd)"
  shows "case first_scoped ''ct_adcode'' ''dt_name'' (adcode c) (name d) gd of
           None \<Rightarrow> d' = d
         | Some rd \<Rightarrow> adcode d' = code_cell rd ''dt_adcode'' \<and>
                      geometry d' = geometry_cell rd"
proof (cases "first_scoped ''ct_adcode'' ''dt_name'' (adcode c) (name d) gd")
  case None
  with assms show ?thesis by (simp add: link_district_eq)
next
  case (Some rd)
  with assms have "assign_row gd ''dt_adcode'' rd d = (d', None)"
    by (simp add: link_district_eq)
  from assign_row_None [OF this] Some show ?thesis by simp
qed

lemma link_city_result:
  assumes "link_city gc gd p c = (c', None)"
    and "''ct_name'' \<in> set (columns gc)" and "''pr_adcode'' \<in> set (columns gc)"
  shows "case first_scoped ''pr_adcode'' ''ct_name'' (adcode p) (name c) gc of
           None \<Rightarrow> c' = c
         | Some rc \<Rightarrow> adcode c' = code_cell rc ''ct_adcode'' \<and>
                      geometry c' = geometry_cell rc \<and>
                      list_all2 (\<lambda>d d'. link_district gd c' d = (d', None)) (children c) (children c')"
proof (cases "first_scoped ''pr_adcode'' ''ct_name'' (adcode p) (name c) gc")
  case None
  with assms show ?thesis by (simp add: link_city_eq)
next
  case (Some rc)
  with assms obtain c1 ds where
    c1: "assign_row gc ''ct_adcode'' rc c = (c1, None)" and
    ds: "for_each (link_district gd c1) (children c1) = (ds, None)" and
    c': "c' = c1\<lparr>children := ds\<rparr>"
    by (auto simp: link_city_eq split: prod.splits option.splits)
  note c1_eq = assign_row_None [OF c1]
  have "link_district gd c' = link_district gd c1"
    using c' by (intro ext link_district_adcode) simp
  with ds c' c1_eq have "list_all2 (\<lambda>d d'. link_district gd c' d = (d', None)) (children c) (children c')"
    by (simp add: for_each_None_iff)
  with c' c1_eq Some show ?thesis by simp
qed

lemma link_province_result:
  assumes "link_province gp gc gd p = (p', None)"
    and "''pr_name'' \<in> set (columns gp)"
  shows "case first_named ''pr_name'' (name p) gp of
           None \<Rightarrow> p' = p
         | Some rp \<Rightarrow> adcode p' = code_cell rp ''pr_adcode'' \<and>
                      geometry p' = geometry_cell rp \<and>
                      list_all2 (\<lambda>c c'. link_city gc gd p' c = (c', None)) (children p) (children p')"
proof (cases "first_named ''pr_name'' (name p) gp")
  case None
  with assms show ?thesis by (simp add: link_province_eq)
next
  case (Some rp)
  with assms obtain p1 cs where
    p1: "assign_row gp ''pr_adcode'' rp p = (p1, None)" and
    cs: "for_each (link_city gc gd p1) (children p1) = (cs, None)" and
    p': "p' = p1\<lparr>children := cs\<rparr>"
    by (auto simp: link_province_eq split: prod.splits option.splits)
  note p1_eq = assign_row_None [OF p1]
  have "link_city gc gd p' = link_city gc gd p1"
    using p' by (intro ext link_city_adcode) simp
  with cs p' p1_eq have "list_all2 (\<lambda>c c'. link_city gc gd p' c = (c', None)) (children p) (children p')"
    by (simp add: for_each_None_iff)
  with p' p1_eq Some show ?thesis by simp
qed

lemma first_scoped_Some_iff:
  "first_scoped parent_col name_col parent nm t = Some r \<longleftrightarrow>
     (\<exists>k<length (rows t). r = rows t ! k \<and>
        cell_eq (code_cell r parent_col) parent \<and>
        normalize_name (Some (text_cell r name_col)) = normalize_name (Some nm) \<and>
        (\<forall>k'<k. \<not> (cell_eq (code_cell (rows t ! k') parent_col) parent \<and>
                     normalize_name (Some (text_cell (rows t ! k') name_col)) = normalize_name (Some nm))))"
  unfolding first_scoped_def find_Some_iff by blast

lemma first_scoped_row: "first_scoped parent_col name_col parent nm t = Some r \<Longrightarrow> r \<in> set (rows t)"
  unfolding first_scoped_def find_Some_iff by auto

lemma first_named_row: "first_named name_col nm t = Some r \<Longrightarrow> r \<in> set (rows t)"
  unfolding first_named_def find_Some_iff by auto

section \<open>What link_data changes\<close>

text \<open>
  The fields other than identifier and geometry, and the children sequences, are kept
  by every step of the linker, also by one that raises.
\<close>

lemma clear_link_children: "clear_link (e\<lparr>children := cs\<rparr>) = (clear_link e)\<lparr>children := cs\<rparr>"
  by (simp add: clear_link_def)

lemma assign_row_frame:
  "clear_link (fst (assign_row t col r e)) = clear_link e"
  "children (fst (assign_row t col r e)) = children e"
  by (simp_all add: assign_row_def clear_link_def)

lemma link_district_frame: "clear_link (fst (link_district gd c d)) = clear_link d"
  by (simp add: link_district_def Let_def assign_row_frame split: list.splits)

lemma link_city_frame: "clear_city (fst (link_city gc gd p c)) = clear_city c"
proof (cases "''ct_name'' \<in> set (columns gc) \<and> ''pr_adcode'' \<in> set (columns gc)")
  case False
  then have "link_city gc gd p c = (c, None)"
    by (intro link_city_skip) auto
  then show ?thesis by simp
next
  case True
  note eq = link_city_eq [of gc gd p c, OF conjunct1 [OF True] conjunct2 [OF True]]
  show ?thesis
  proof (cases "first_scoped ''pr_adcode'' ''ct_name'' (adcode p) (name c) gc")
    case None
    with eq show ?thesis by simp
  next
    case (Some r)
    obtain c1 e1 where c1: "assign_row gc ''ct_adcode'' r c = (c1, e1)"
      by (cases "assign_row gc ''ct_adcode'' r c")
    from assign_row_frame [of gc "''ct_adcode''" r c] c1
    have f1: "clear_link c1 = clear_link c" "children c1 = children c"
      by simp_all
    then have same: "clear_city c1 = clear_city c"
      by (simp add: clear_city_def clear_link_children)
    show ?thesis
    proof (cases e1)
      case (Some err)
      with eq \<open>first_scoped ''pr_adcode'' ''ct_name'' (adcode p) (name c) gc = Some r\<close> c1 same
      show ?thesis by simp
    next
      case None
      obtain ds e2 where ds: "for_each (link_district gd c1) (children c1) = (ds, e2)"
        by (cases "for_each (link_district gd c1) (children c1)")
      have "list_all2 (\<lambda>d d'. clear_link d' = clear_link d) (children c1)
          (fst (for_each (link_district gd c1) (children c1)))"
        by (rule for_each_rel) (simp_all add: link_district_frame)
      with ds f1(2) have "map clear_link ds = map clear_link (children c)"
        by (simp add: list_all2_map_eq)
      with f1(1) have "clear_city (c1\<lparr>children := ds\<rparr>) = clear_city c"
        by (simp add: clear_city_def clear_link_children)
      with eq \<open>first_scoped ''pr_adcode'' ''ct_name'' (adcode p) (name c) gc = Some r\<close> c1 None ds
      show ?thesis by simp
    qed
  qed
qed

lemma link_province_frame: "clear_province (fst (link_province gp gc gd p)) = clear_province p"
proof (cases "''pr_name'' \<in> set (columns gp)")
  case False
  then have "link_province gp gc gd p = (p, None)"
    by (rule link_province_skip)
  then show ?thesis by simp
next
  case True
  note eq = link_province_eq [of gp gc gd p, OF True]
  show ?thesis
  proof (cases "first_named ''pr_name'' (name p) gp")
    case None
    with eq show ?thesis by simp
  next
    case (Some r)
    obtain p1 e1 where p1: "assign_row gp ''pr_adcode'' r p = (p1, e1)"
      by (cases "assign_row gp ''pr_adcode'' r p")
    from assign_row_frame [of gp "''pr_adcode''" r p] p1
    have f1: "clear_link p1 = clear_link p" "children p1 = children p"
      by simp_all
    then have same: "clear_province p1 = clear_province p"
      by (simp add: clear_province_def clear_link_children)
    show ?thesis
    proof (cases e1)
      case (Some err)
      with eq \<open>first_named ''pr_name'' (name p) gp = Some r\<close> p1 same
      show ?thesis by simp
    next
      case None
      obtain cs e2 where cs: "for_each (link_city gc gd p1) (children p1) = (cs, e2)"
        by (cases "for_each (link_city gc gd p1) (children p1)")
      have "list_all2 (\<lambda>c c'. clear_city c' = clear_city c) (children p1)
          (fst (for_each (link_city gc gd p1) (children p1)))"
        by (rule for_each_rel) (simp_all add: link_city_frame)
      with cs f1(2) have "map clear_city cs = map clear_city (children p)"
        by (simp add: list_all2_map_eq)
      with f1(1) have "clear_province (p1\<lparr>children := cs\<rparr>) = clear_province p"
        by (simp add: clear_province_def clear_link_children)
      with eq \<open>first_named ''pr_name'' (name p) gp = Some r\<close> p1 None cs
      show ?thesis by simp
    qed
  qed
qed

lemma link_data_keeps: "map clear_province (fst (link_data md shp)) = map clear_province md"
proof (cases "essential shp")
  case None
  then show ?thesis by (simp add: link_data_def)
next
  case (Some tabs)
  obtain gp gc gd where tabs: "tabs = (gp, gc, gd)" by (cases tabs) auto
  have "list_all2 (\<lambda>p p'. clear_province p' = clear_province p) md
      (fst (for_each (link_province gp gc gd) md))"
    by (rule for_each_rel) (simp_all add: link_province_frame)
  then have "map clear_province (fst (for_each (link_province gp gc gd) md)) = map clear_province md"
    by (rule list_all2_map_eq)
  with Some tabs show ?thesis by (simp add: link_data_def)
qed

text \<open>A region that is unlinked can change from unset to set only.\<close>

lemma unlinked_set_only: "unlinked e \<Longrightarrow> set_only e e'"
  by (simp add: unlinked_def set_only_def)

lemma unlinked_all_set_only:
  "length ds' = length ds \<Longrightarrow> list_all unlinked ds \<Longrightarrow> list_all2 set_only ds ds'"
  by (simp add: list_all2_conv_all_nth list_all_length unlinked_set_only)

lemma clear_city_children: "children (clear_city c) = map clear_link (children c)"
  by (simp add: clear_city_def clear_link_def)

lemma clear_province_children: "children (clear_province p) = map clear_city (children p)"
  by (simp add: clear_province_def clear_link_def)

lemma unlinked_city_set_only:
  assumes "clear_city c' = clear_city c" and "unlinked_city c"
  shows "set_only_city c c'"
proof -
  from assms(1) have "children (clear_city c') = children (clear_city c)" by simp
  then have "map clear_link (children c') = map clear_link (children c)"
    by (simp add: clear_city_children)
  then have "length (children c') = length (children c)"
    by (rule map_eq_imp_length_eq)
  with assms(2) show ?thesis
    by (simp add: set_only_city_def unlinked_city_def unlinked_set_only unlinked_all_set_only)
qed

lemma unlinked_cities_set_only:
  assumes "map clear_city cs' = map clear_city cs" and "list_all unlinked_city cs"
  shows "list_all2 set_only_city cs cs'"
proof -
  from assms(1) have len: "length cs' = length cs" by (rule map_eq_imp_length_eq)
  have "set_only_city (cs ! i) (cs' ! i)" if "i < length cs" for i
  proof -
    from assms(1) have "map clear_city cs' ! i = map clear_city cs ! i" by simp
    with that len have "clear_city (cs' ! i) = clear_city (cs ! i)" by simp
    moreover from assms(2) that have "unlinked_city (cs ! i)" by (simp add: list_all_length)
    ultimately show ?thesis by (rule unlinked_city_set_only)
  qed
  with len show ?thesis by (simp add: list_all2_conv_all_nth)
qed

lemma unlinked_province_set_only:
  assumes "clear_province p' = clear_province p" and "unlinked_province p"
  shows "set_only_province p p'"
proof -
  from assms(1) have "children (clear_province p') = children (clear_province p)" by simp
  then have "map clear_city (children p') = map clear_city (children p)"
    by (simp add: clear_province_children)
  with assms(2) show ?thesis
    by (simp add: set_only_province_def unlinked_province_def unlinked_set_only
        unlinked_cities_set_only)
qed

lemma unlinked_forest_set_only:
  assumes "map clear_province md' = map clear_province md" and "list_all unlinked_province md"
  shows "list_all2 set_only_province md md'"
proof -
  from assms(1) have len: "length md' = length md" by (rule map_eq_imp_length_eq)
  have "set_only_province (md ! i) (md' ! i)" if "i < length md" for i
  proof -
    from assms(1) have "map clear_province md' ! i = map clear_province md ! i" by simp
    with that len have "clear_province (md' ! i) = clear_province (md ! i)" by simp
    moreover from assms(2) that have "unlinked_province (md ! i)" by (simp add: list_all_length)
    ultimately show ?thesis by (rule unlinked_province_set_only)
  qed
  with len show ?thesis by (simp add: list_all2_conv_all_nth)
qed

text \<open>
  When the linker returns, identifier and geometry of a region are what they were or the
  two cells of one row.
\<close>

lemma copied_refl: "copied t col e e"
  by (simp add: copied_def)

lemma copied_city_refl: "copied_city gc gd c c"
  by (simp add: copied_city_def copied_refl list_all2_same)

lemma copied_province_refl: "copied_province gp gc gd p p"
  by (simp add: copied_province_def copied_refl copied_city_refl list_all2_same)

lemma link_district_copied:
  assumes "link_district gd c d = (d', None)"
  shows "copied gd ''dt_adcode'' d d'"
proof (cases "''dt_name'' \<in> set (columns gd) \<and> ''ct_adcode'' \<in> set (columns gd)")
  case False
  then have "link_district gd c d = (d, None)"
    by (intro link_district_skip) auto
  with assms show ?thesis by (simp add: copied_refl)
next
  case True
  note res = link_district_result [OF assms conjunct1 [OF True] conjunct2 [OF True]]
  show ?thesis
  proof (cases "first_scoped ''ct_adcode'' ''dt_name'' (adcode c) (name d) gd")
    case None
    with res show ?thesis by (simp add: copied_refl)
  next
    case (Some r)
    with res first_scoped_row [OF Some] show ?thesis by (auto simp: copied_def)
  qed
qed

lemma districts_copied:
  assumes "list_all2 (\<lambda>d d'. link_district gd c d = (d', None)) ds ds'"
  shows "list_all2 (copied gd ''dt_adcode'') ds ds'"
  using assms by (induction rule: list_all2_induct) (auto dest: link_district_copied)

lemma link_city_copied:
  assumes "link_city gc gd p c = (c', None)"
  shows "copied_city gc gd c c'"
proof (cases "''ct_name'' \<in> set (columns gc) \<and> ''pr_adcode'' \<in> set (columns gc)")
  case False
  then have "link_city gc gd p c = (c, None)"
    by (intro link_city_skip) auto
  with assms show ?thesis by (simp add: copied_city_refl)
next
  case True
  note res = link_city_result [OF assms conjunct1 [OF True] conjunct2 [OF True]]
  show ?thesis
  proof (cases "first_scoped ''pr_adcode'' ''ct_name'' (adcode p) (name c) gc")
    case None
    with res show ?thesis by (simp add: copied_city_refl)
  next
    case (Some r)
    with res have a: "adcode c' = code_cell r ''ct_adcode''" "geometry c' = geometry_cell r"
      and ds: "list_all2 (\<lambda>d d'. link_district gd c' d = (d', None)) (children c) (children c')"
      by simp_all
    from a first_scoped_row [OF Some] have "copied gc ''ct_adcode'' c c'"
      by (auto simp: copied_def)
    with districts_copied [OF ds] show ?thesis by (simp add: copied_city_def)
  qed
qed

lemma cities_copied:
  assumes "list_all2 (\<lambda>c c'. link_city gc gd p c = (c', None)) cs cs'"
  shows "list_all2 (copied_city gc gd) cs cs'"
  using assms by (induction rule: list_all2_induct) (auto dest: link_city_copied)

lemma link_province_copied:
  assumes "link_province gp gc gd p = (p', None)"
  shows "copied_province gp gc gd p p'"
proof (cases "''pr_name'' \<in> set (columns gp)")
  case False
  then have "link_province gp gc gd p = (p, None)"
    by (rule link_province_skip)
  with assms show ?thesis by (simp add: copied_province_refl)
next
  case True
  note res = link_province_result [OF assms True]
  show ?thesis
  proof (cases "first_named ''pr_name'' (name p) gp")
    case None
    with res show ?thesis by (simp add: copied_province_refl)
  next
    case (Some r)
    with res have a: "adcode p' = code_cell r ''pr_adcode''" "geometry p' = geometry_cell r"
      and cs: "list_all2 (\<lambda>c c'. link_city gc gd p' c = (c', None)) (children p) (children p')"
      by simp_all
    from a first_named_row [OF Some] have "copied gp ''pr_adcode'' p p'"
      by (auto simp: copied_def)
    with cities_copied [OF cs] show ?thesis by (simp add: copied_province_def)
  qed
qed

lemma link_data_copied:
  assumes "link_data md shp = (md', None)" and "essential shp = Some (gp, gc, gd)"
  shows "list_all2 (copied_province gp gc gd) md md'"
  using link_data_None [OF assms]
  by (induction rule: list_all2_induct) (auto dest: link_province_copied)

text \<open>
  Copying from a table whose rows hold identifier and shape together keeps the
  identifier set exactly when the geometry is.
\<close>

lemma unlinked_paired: "unlinked e \<Longrightarrow> paired e"
  by (simp add: unlinked_def paired_def)

lemma unlinked_province_paired: "unlinked_province p \<Longrightarrow> paired_province p"
  by (auto simp: unlinked_province_def paired_province_def unlinked_city_def paired_city_def
      list_all_iff intro: unlinked_paired)

lemma copied_paired: "copied t col e e' \<Longrightarrow> rows_paired col t \<Longrightarrow> paired e \<Longrightarrow> paired e'"
  by (auto simp: copied_def paired_def rows_paired_def list_all_iff)

lemma copied_all_paired:
  "list_all2 (copied t col) ds ds' \<Longrightarrow> rows_paired col t \<Longrightarrow> list_all paired ds
     \<Longrightarrow> list_all paired ds'"
  by (induction rule: list_all2_induct) (auto intro: copied_paired)

lemma copied_city_paired:
  "copied_city gc gd c c' \<Longrightarrow> rows_paired ''ct_adcode'' gc \<Longrightarrow> rows_paired ''dt_adcode'' gd
     \<Longrightarrow> paired_city c \<Longrightarrow> paired_city c'"
  by (auto simp: copied_city_def paired_city_def intro: copied_paired copied_all_paired)

lemma copied_cities_paired:
  "list_all2 (copied_city gc gd) cs cs' \<Longrightarrow> rows_paired ''ct_adcode'' gc
     \<Longrightarrow> rows_paired ''dt_adcode'' gd \<Longrightarrow> list_all paired_city cs \<Longrightarrow> list_all paired_city cs'"
  by (induction rule: list_all2_induct) (auto intro: copied_city_paired)

lemma copied_province_paired:
  "copied_province gp gc gd p p' \<Longrightarrow> rows_paired ''pr_adcode'' gp
     \<Longrightarrow> rows_paired ''ct_adcode'' gc \<Longrightarrow> rows_paired ''dt_adcode'' gd
     \<Longrightarrow> paired_province p \<Longrightarrow> paired_province p'"
  by (auto simp: copied_province_def paired_province_def
      intro: copied_paired copied_cities_paired)

lemma copied_provinces_paired:
  "list_all2 (copied_province gp gc gd) md md' \<Longrightarrow> rows_paired ''pr_adcode'' gp
     \<Longrightarrow> rows_paired ''ct_adcode'' gc \<Longrightarrow> rows_paired ''dt_adcode'' gd
     \<Longrightarrow> list_all paired_province md \<Longrightarrow> list_all paired_province md'"
  by (induction rule: list_all2_induct) (auto intro: copied_province_paired)

section \<open>The heap of the parser\<close>

lemma list_all_update:
  assumes "list_all P h" and "\<And>e. P e \<Longrightarrow> P (f e)"
  shows "list_all P (h[a := f (h ! a)])"
proof (cases "a < length h")
  case True
  with assms(1) have "P (h ! a)" by (simp add: list_all_length)
  then have "P (f (h ! a))" by (rule assms(2))
  with assms(1) show ?thesis
    using set_update_subset_insert [of h a "f (h ! a)"] by (auto simp: list_all_iff)
next
  case False
  with assms(1) show ?thesis by (simp add: list_update_beyond)
qed

lemma node_ok_mono: "node_ok n e \<Longrightarrow> n \<le> m \<Longrightarrow> node_ok m e"
  by (auto simp: node_ok_def list_all_iff)

lemma node_ok_add_text: "node_ok n e \<Longrightarrow> node_ok n (add_text k t e)"
  by (cases k) (simp_all add: node_ok_def unlinked_def add_text_def set_text_def child_addresses_def)

lemma node_ok_append_child: "node_ok n e \<Longrightarrow> a < n \<Longrightarrow> node_ok n (append_child a e)"
  by (simp add: node_ok_def unlinked_def append_child_def child_addresses_def split: option.splits)

lemma flush_fields [simp]:
  "processed_data (flush_buffer s) = processed_data s"
  "current_province (flush_buffer s) = current_province s"
  "current_city (flush_buffer s) = current_city s"
  "current_district (flush_buffer s) = current_district s"
  "active_entity (flush_buffer s) = active_entity s"
  "active_field (flush_buffer s) = active_field s"
  "length (heap (flush_buffer s)) = length (heap s)"
  by (simp_all add: flush_buffer_def Let_def split: option.splits)

lemma heap_ok_flush: "heap_ok s \<Longrightarrow> heap_ok (flush_buffer s)"
  by (auto simp: heap_ok_def flush_buffer_def Let_def node_ok_add_text
      intro!: list_all_update split: option.splits)

lemma heap_ok_append:
  assumes "list_all (node_ok (length h)) h" and "node_ok (Suc (length h)) e"
  shows "list_all (node_ok (Suc (length h))) (h @ [e])"
  using assms by (auto simp: list_all_iff intro: node_ok_mono)

lemma heap_ok_on_h1: "heap_ok s \<Longrightarrow> heap_ok (on_h1 g s)"
proof -
  assume "heap_ok s"
  then have ok: "heap_ok (flush_buffer s)" by (rule heap_ok_flush)
  have "node_ok n (new_province x)" for n x
    by (simp add: node_ok_def unlinked_def new_province_def child_addresses_def)
  with ok show ?thesis
    by (auto simp: heap_ok_def on_h1_def Let_def list_all_iff intro: node_ok_mono less_SucI)
qed

lemma heap_ok_child:
  assumes "list_all (node_ok (length h)) h" and "node_ok (Suc (length h)) e"
  shows "list_all (node_ok (Suc (length h))) ((h @ [e])[p := append_child (length h) ((h @ [e]) ! p)])"
proof -
  have "list_all (node_ok (Suc (length h))) (h @ [e])"
    using assms by (rule heap_ok_append)
  then show ?thesis
    by (rule list_all_update) (simp add: node_ok_append_child)
qed

lemma heap_ok_on_h2: "heap_ok s \<Longrightarrow> heap_ok (on_h2 p g s)"
proof -
  assume "heap_ok s"
  then have ok: "heap_ok (flush_buffer s)" by (rule heap_ok_flush)
  have new: "node_ok n (new_city x e)" for n x e
    by (simp add: node_ok_def unlinked_def new_city_def child_addresses_def)
  from ok have "list_all (node_ok (length (heap (flush_buffer s)))) (heap (flush_buffer s))"
    by (simp add: heap_ok_def)
  from heap_ok_child [OF this new] ok show ?thesis
    by (auto simp: heap_ok_def on_h2_def Let_def list_all_iff intro: less_SucI)
qed

lemma heap_ok_on_h3: "heap_ok s \<Longrightarrow> heap_ok (on_h3 c g s)"
proof -
  assume "heap_ok s"
  then have ok: "heap_ok (flush_buffer s)" by (rule heap_ok_flush)
  have new: "node_ok n (new_district x e)" for n x e
    by (simp add: node_ok_def unlinked_def new_district_def child_addresses_def)
  from ok have "list_all (node_ok (length (heap (flush_buffer s)))) (heap (flush_buffer s))"
    by (simp add: heap_ok_def)
  from heap_ok_child [OF this new] ok show ?thesis
    by (auto simp: heap_ok_def on_h3_def Let_def list_all_iff intro: less_SucI)
qed

lemma heap_ok_marker:
  "heap_ok s \<Longrightarrow> heap_ok (on_h2_zero p s)" "heap_ok s \<Longrightarrow> heap_ok (on_h3_zero c s)"
  using heap_ok_flush [of s] by (simp_all add: heap_ok_def on_h2_zero_def on_h3_zero_def Let_def)

lemma heap_ok_on_text: "heap_ok s \<Longrightarrow> heap_ok (on_text l s)"
  by (simp add: heap_ok_def on_text_def)

lemma process_line_cases:
  "process_line s l = s \<or> (\<exists>g. process_line s l = on_h1 g s) \<or>
   (\<exists>p. process_line s l = on_h2_zero p s) \<or> (\<exists>p g. process_line s l = on_h2 p g s) \<or>
   (\<exists>c. process_line s l = on_h3_zero c s) \<or> (\<exists>c g. process_line s l = on_h3 c g s) \<or>
   process_line s l = on_text l s"
  by (auto simp: process_line_def Let_def split: option.splits)

lemma heap_ok_process_line: "heap_ok s \<Longrightarrow> heap_ok (process_line s l)"
  using process_line_cases [of s l]
  by (auto simp: heap_ok_on_h1 heap_ok_on_h2 heap_ok_on_h3 heap_ok_marker heap_ok_on_text)

lemma heap_ok_foldl: "heap_ok s \<Longrightarrow> heap_ok (foldl process_line s ls)"
  by (induction ls arbitrary: s) (simp_all add: heap_ok_process_line)

lemma heap_ok_parse_lines: "heap_ok (parse_lines ls)"
  unfolding parse_lines_def
  by (intro heap_ok_flush heap_ok_foldl) (simp add: heap_ok_def initial_def)

lemma unlinked_with_children: "unlinked (with_children cs e) = unlinked e"
  by (simp add: unlinked_def with_children_def)

lemma children_with_children: "children (with_children cs e) = cs"
  by (simp add: with_children_def)

lemma forest_of_unlinked:
  assumes "heap_ok s"
  shows "list_all unlinked_province (forest_of s)"
proof -
  let ?h = "heap s"
  have node: "node_ok (length ?h) (?h ! a)" if "a < length ?h" for a
    using assms that by (simp add: heap_ok_def list_all_length)
  have d: "unlinked (read_district ?h a)" if "a < length ?h" for a
    using node [OF that] by (simp add: read_district_def unlinked_with_children node_ok_def)
  have c: "unlinked_city (read_city ?h a)" if "a < length ?h" for a
    using node [OF that] d
    by (simp add: read_city_def unlinked_city_def unlinked_with_children children_with_children
        node_ok_def list_all_iff)
  have p: "unlinked_province (read_province ?h a)" if "a < length ?h" for a
    using node [OF that] c
    by (simp add: read_province_def unlinked_province_def unlinked_with_children
        children_with_children node_ok_def list_all_iff)
  from assms p show ?thesis
    by (simp add: forest_of_def heap_ok_def list_all_iff)
qed

lemma parse_markdown_unlinked: "list_all unlinked_province (parse_markdown f)"
  by (cases f) (simp_all add: parse_markdown_def forest_of_unlinked heap_ok_parse_lines)

section \<open>The steps of the parser\<close>

lemma lit_hash: "r \<noteq> [] \<Longrightarrow> hd r \<noteq> 35 \<Longrightarrow> lit (35 # q) r = None"
  by (cases r) (simp_all add: lit_def)

lemma plain_no_pattern:
  assumes "plain l" and "strip l \<noteq> []"
  shows "H1_MD_PATTERN (strip l) = None" "\<not> H2_SPECIAL_ZERO_PATTERN (strip l)"
    "H2_MD_PATTERN (strip l) = None" "\<not> H3_SPECIAL_ZERO_PATTERN (strip l)"
    "H3_MD_PATTERN (strip l) = None"
proof -
  from assms have "hd (strip l) \<noteq> 35"
    by (cases "strip l") (simp_all add: plain_def)
  with assms(2) have "lit (35 # q) (strip l) = None" for q
    by (simp add: lit_hash)
  then show "H1_MD_PATTERN (strip l) = None" "\<not> H2_SPECIAL_ZERO_PATTERN (strip l)"
    "H2_MD_PATTERN (strip l) = None" "\<not> H3_SPECIAL_ZERO_PATTERN (strip l)"
    "H3_MD_PATTERN (strip l) = None"
    by (simp_all add: H1_MD_PATTERN_def H2_SPECIAL_ZERO_PATTERN_def H2_MD_PATTERN_def
        H3_SPECIAL_ZERO_PATTERN_def H3_MD_PATTERN_def)
qed

lemma process_line_plain:
  assumes "plain l"
  shows "process_line s l = (if strip l = [] then s else on_text l s)"
proof (cases "strip l = []")
  case True
  then show ?thesis by (simp add: process_line_def Let_def)
next
  case False
  with plain_no_pattern [OF assms False] show ?thesis
    by (simp add: process_line_def Let_def)
qed

lemma foldl_plain:
  assumes "\<forall>l\<in>set ls. plain l"
  shows "foldl process_line s ls =
     s\<lparr>current_text_buffer :=
         current_text_buffer s @ map strip_nl (filter (\<lambda>l. strip l \<noteq> []) ls)\<rparr>"
  using assms
proof (induction ls arbitrary: s)
  case Nil
  show ?case by simp
next
  case (Cons l ls)
  then show ?case
    by (simp add: process_line_plain on_text_def)
qed

lemma h2_zero_not_h1:
  assumes "H2_SPECIAL_ZERO_PATTERN line"
  shows "H1_MD_PATTERN line = None"
proof -
  from assms obtain r where "lit [35, 35] line = Some r"
    by (auto simp: H2_SPECIAL_ZERO_PATTERN_def Option.bind_eq_Some_conv split: option.splits
        dest!: Option.bind_eq_None_conv [THEN iffD1, rotated])
  then obtain q where "line = 35 # 35 # q"
    by (cases line; cases "tl line") (auto simp: lit_def split: if_splits)
  then show ?thesis
    by (simp add: H1_MD_PATTERN_def lit_def plus1_def isspace_def)
qed

lemma h2_zero_not_blank: "H2_SPECIAL_ZERO_PATTERN line \<Longrightarrow> line \<noteq> []"
  by (auto simp: H2_SPECIAL_ZERO_PATTERN_def lit_def)

lemma process_line_h2_zero:
  assumes "current_province s = Some p" and "H2_SPECIAL_ZERO_PATTERN (strip l)"
  shows "process_line s l = on_h2_zero p s"
  using assms h2_zero_not_h1 [OF assms(2)] h2_zero_not_blank [OF assms(2)]
  by (simp add: process_line_def Let_def)

lemma flush_buffer_active:
  assumes "active_entity s = Some a"
  shows "flush_buffer s =
     (let text_to_add = strip (join_nl (current_text_buffer s)) in
      if text_to_add = [] then s\<lparr>current_text_buffer := []\<rparr>
      else s\<lparr>heap := (heap s)[a := add_text (active_field s) text_to_add (heap s ! a)],
             current_text_buffer := []\<rparr>)"
proof (cases "current_text_buffer s = []")
  case True
  then have "strip (join_nl (current_text_buffer s)) = []"
    by (simp add: strip_def strip_by_def)
  with True assms show ?thesis by (simp add: flush_buffer_def)
next
  case False
  with assms show ?thesis by (simp add: flush_buffer_def Let_def)
qed

lemma flush_buffer_clears:
  "active_entity s \<noteq> None \<Longrightarrow> current_text_buffer (flush_buffer s) = []"
  by (auto simp: flush_buffer_active Let_def)

section \<open>The numerals of the mid-tier heading\<close>

text \<open>
  Every alternative of \<open>H2_ordinals\<close> but the last is recognized: a line made of \<open>##\<close>,
  whitespace, one of the numerals for 1 to 37, the separator U+3001, optional whitespace
  and a title without line feed matches \<open>H2_MD_PATTERN\<close> with the title as its group,
  and matches neither the top-tier heading nor the top-tier general marker; so with a
  province in scope the parser creates the level-2 region.
\<close>

lemma title_group_found:
  assumes "\<forall>c\<in>set sp. isspace c" and "t \<noteq> []" and "\<not> isspace (hd t)" and "10 \<notin> set t"
  shows "title_group (sp @ t) = Some t"
proof -
  from assms(2,3) have "takeWhile isspace t = []" by (cases t) simp_all
  with assms(1) have tw: "takeWhile isspace (sp @ t) = sp"
    by (simp add: takeWhile_append2)
  from assms(4) have tk: "takeWhile (\<lambda>c. c \<noteq> 10) t = t"
    by (auto simp: takeWhile_eq_all_conv)
  have at: "title_at (length sp) (sp @ t) = Some t"
    using assms(2) by (simp add: title_at_def at_end_def Let_def tk)
  have "title_after (length sp) (sp @ t) = Some t"
    using at by (cases "length sp") simp_all
  with tw show ?thesis by (simp add: title_group_def)
qed

lemma h2_alternatives_numeral:
  assumes "w \<in> set (butlast H2_ordinals)"
  shows "h2_alternatives H2_ordinals (w @ 12289 # r) = title_group r \<and> hd w \<noteq> 38646 \<and>
    \<not> isspace (hd w) \<and> w \<noteq> []"
proof -
  from assms show ?thesis
    apply (simp add: H2_ordinals_def)
    apply (elim disjE)
    apply (simp_all add: lit_def isspace_def H2_ordinals_def cong: option.case_cong_weak split: option.splits)
    done
qed


lemma lit_first: "r \<noteq> [] \<Longrightarrow> hd r \<noteq> c \<Longrightarrow> lit (c # q) r = None"
  by (cases r) (simp_all add: lit_def)

lemma strip_line:
  assumes "line \<noteq> []" and "\<not> isspace (hd line)" and "\<not> isspace (last line)"
    and "nl = [] \<or> nl = [10]"
  shows "strip (line @ nl) = line"
proof -
  from assms(1,2) have "dropWhile isspace (line @ nl) = line @ nl"
    by (cases line) simp_all
  moreover from assms(1,3) have "dropWhile isspace (rev line) = rev line"
    by (cases "rev line") (simp_all add: hd_rev [symmetric] del: hd_rev)
  with assms(4) have "dropWhile isspace (rev (line @ nl)) = rev line"
    by (auto simp: isspace_def)
  ultimately show ?thesis by (simp add: strip_def strip_by_def)
qed

lemma h2_numeral_matches:
  assumes w: "w \<in> set (butlast H2_ordinals)"
    and sp: "sp \<noteq> []" "\<forall>c\<in>set sp. isspace c" "\<forall>c\<in>set sp2. isspace c"
    and t: "t \<noteq> []" "\<not> isspace (hd t)" "10 \<notin> set t"
  defines "line \<equiv> [35, 35] @ sp @ w @ [12289] @ sp2 @ t"
  shows "H2_MD_PATTERN line = Some t" and "H1_MD_PATTERN line = None"
    and "\<not> H2_SPECIAL_ZERO_PATTERN line"
proof -
  note alt = h2_alternatives_numeral [OF w, of "sp2 @ t"]
  from alt have w_ne: "w \<noteq> []" and w_hd: "\<not> isspace (hd w)" "hd w \<noteq> 38646" by simp_all
  have rest: "h2_alternatives H2_ordinals (w @ 12289 # sp2 @ t) = Some t"
    using alt title_group_found [OF sp(3) t] by simp
  from w_ne w_hd(1) have "takeWhile isspace (w @ 12289 # sp2 @ t) = []"
    by (cases w) simp_all
  with sp(2) have tw: "takeWhile isspace (sp @ w @ 12289 # sp2 @ t) = sp"
    by (simp add: takeWhile_append2)
  from sp(1) obtain k where k: "length sp = Suc k" by (cases sp) auto
  have "drop (length sp) (sp @ w @ 12289 # sp2 @ t) = w @ 12289 # sp2 @ t"
    by simp
  then have "drop (Suc k) (sp @ w @ 12289 # sp2 @ t) = w @ 12289 # sp2 @ t"
    by (simp only: k)
  with rest have "h2_spaces (Suc k) (sp @ w @ 12289 # sp2 @ t) = Some t"
    by simp
  then have "h2_spaces (length sp) (sp @ w @ 12289 # sp2 @ t) = Some t"
    by (simp only: k)
  with tw show "H2_MD_PATTERN line = Some t"
    by (simp add: H2_MD_PATTERN_def line_def lit_def)
  show "H1_MD_PATTERN line = None"
    by (simp add: H1_MD_PATTERN_def line_def lit_def plus1_def isspace_def)
  have z: "lit [38646, 12289, 19978, 20301, 31867, 35828, 26126] (w @ 12289 # sp2 @ t) = None"
    using w_ne w_hd(2) by (intro lit_first) simp_all
  from w_ne w_hd(1) have "dropWhile isspace (w @ 12289 # sp2 @ t) = w @ 12289 # sp2 @ t"
    by (cases w) simp_all
  with sp(2) have "dropWhile isspace (sp @ w @ 12289 # sp2 @ t) = w @ 12289 # sp2 @ t"
    by (simp add: dropWhile_append2)
  with tw sp(1) have p1: "plus1 isspace (sp @ w @ 12289 # sp2 @ t) = Some (w @ 12289 # sp2 @ t)"
    by (simp add: plus1_def)
  have l2: "lit [35, 35] line = Some (sp @ w @ 12289 # sp2 @ t)"
    by (simp add: lit_def line_def)
  show "\<not> H2_SPECIAL_ZERO_PATTERN line"
    by (simp add: H2_SPECIAL_ZERO_PATTERN_def l2 p1 z)
qed

lemma h2_numeral_recognized:
  assumes w: "w \<in> set (butlast H2_ordinals)"
    and sp: "sp \<noteq> []" "\<forall>c\<in>set sp. isspace c" "\<forall>c\<in>set sp2. isspace c"
    and t: "t \<noteq> []" "\<not> isspace (hd t)" "\<not> isspace (last t)" "10 \<notin> set t"
    and nl: "nl = [] \<or> nl = [10]"
    and prov: "current_province s = Some p"
  shows "process_line s ([35, 35] @ sp @ w @ [12289] @ sp2 @ t @ nl) = on_h2 p t s"
proof -
  let ?line = "[35, 35] @ sp @ w @ [12289] @ sp2 @ t"
  have "strip (?line @ nl) = ?line"
    using t(1,3) nl by (intro strip_line) (simp_all add: isspace_def)
  then have st: "strip ([35, 35] @ sp @ w @ [12289] @ sp2 @ t @ nl) = ?line"
    by simp
  from h2_numeral_matches [OF w sp t(1,2,4)] prov show ?thesis
    unfolding process_line_def st by (simp add: Let_def)
qed

section \<open>The loop of normalize_name\<close>

lemma remove_suffix_cases:
  assumes "u \<noteq> []"
  shows "remove_suffix n u = n \<or> (n = remove_suffix n u @ u \<and> remove_suffix n u \<noteq> [])"
proof (cases "endswith n u \<and> length n > length u")
  case False
  then show ?thesis by (auto simp: remove_suffix_def)
next
  case True
  then have "drop (length n - length u) n = u" by (simp add: endswith_def)
  then have "n = take (length n - length u) n @ u"
    by (metis append_take_drop_id)
  moreover from True have "take (length n - length u) n \<noteq> []" by auto
  ultimately show ?thesis using True assms by (simp add: remove_suffix_def drop_last_def)
qed

lemma foldl_remove_suffix:
  assumes "[] \<notin> set sfx"
  shows "\<exists>us\<in>set (subseqs sfx). n = foldl remove_suffix n sfx @ concat (rev us) \<and>
      (n \<noteq> [] \<longrightarrow> foldl remove_suffix n sfx \<noteq> [])"
  using assms
proof (induction sfx arbitrary: n)
  case Nil
  show ?case by simp
next
  case (Cons u sfx)
  then have u: "u \<noteq> []" and "[] \<notin> set sfx" by auto
  from Cons.IH [OF this(2), of "remove_suffix n u"] obtain us where
    us: "us \<in> set (subseqs sfx)"
    and eq: "remove_suffix n u = foldl remove_suffix (remove_suffix n u) sfx @ concat (rev us)"
    and ne: "remove_suffix n u \<noteq> [] \<longrightarrow> foldl remove_suffix (remove_suffix n u) sfx \<noteq> []"
    by blast
  from remove_suffix_cases [OF u, of n] show ?case
  proof
    assume same: "remove_suffix n u = n"
    from us have "us \<in> set (subseqs (u # sfx))" by (simp add: Let_def)
    with eq ne same show ?thesis by (intro bexI [of _ us]) auto
  next
    assume cut: "n = remove_suffix n u @ u \<and> remove_suffix n u \<noteq> []"
    from us have "u # us \<in> set (subseqs (u # sfx))" by (simp add: Let_def)
    moreover from cut have "n = remove_suffix n u @ u" ..
    then have "n = (foldl remove_suffix (remove_suffix n u) sfx @ concat (rev us)) @ u"
      using eq by simp
    then have "n = foldl remove_suffix (remove_suffix n u) sfx @ concat (rev (u # us))"
      by simp
    ultimately show ?thesis using ne cut by (intro bexI [of _ "u # us"]) auto
  qed
qed

lemma strip_by_id:
  assumes "n \<noteq> []" and "\<not> P (hd n)" and "\<not> P (last n)"
  shows "strip_by P n = n"
proof -
  from assms(1,2) have "dropWhile P n = n" by (cases n) simp_all
  moreover from assms(1,3) have "dropWhile P (rev n) = rev n"
    by (cases "rev n") (simp_all add: hd_rev [symmetric] del: hd_rev)
  ultimately show ?thesis by (simp add: strip_by_def)
qed

lemma endswith_rev: "endswith n u \<longleftrightarrow> take (length u) (rev n) = rev u"
proof
  assume "endswith n u"
  then have "length u \<le> length n" and "drop (length n - length u) n = u"
    by (simp_all add: endswith_def)
  then show "take (length u) (rev n) = rev u"
    using rev_drop [of "length n - length u" n] by simp
next
  assume a: "take (length u) (rev n) = rev u"
  then have "length (take (length u) (rev n)) = length (rev u)"
    by simp
  then have len: "length u \<le> length n"
    by simp
  from a have "rev (take (length u) (rev n)) = u" by simp
  with len have "drop (length n - length u) n = u"
    by (simp add: rev_take)
  with len show "endswith n u" by (simp add: endswith_def)
qed

lemma endswith_append_iff: "endswith n u \<longleftrightarrow> (\<exists>q. n = q @ u)"
proof
  assume "endswith n u"
  then have "drop (length n - length u) n = u" by (simp add: endswith_def)
  then have "n = take (length n - length u) n @ u"
    by (metis append_take_drop_id)
  then show "\<exists>q. n = q @ u" ..
next
  assume "\<exists>q. n = q @ u"
  then show "endswith n u" by (auto simp: endswith_def)
qed

lemma single_not_space: "s \<in> set single_suffixes \<Longrightarrow> s \<noteq> [] \<and> \<not> isspace (last s)"
  by (auto simp: single_suffixes_def isspace_def)

lemma strip_remainder_suffix:
  assumes "s \<in> set single_suffixes" and "r = [] \<or> \<not> isspace (hd r)"
  shows "strip (r @ s) = r @ s"
proof -
  from single_not_space [OF assms(1)] have s: "s \<noteq> []" "\<not> isspace (last s)" by simp_all
  have "\<not> isspace (hd (r @ s))"
  proof (cases "r = []")
    case True
    with assms(1) show ?thesis by (auto simp: single_suffixes_def isspace_def)
  next
    case False
    with assms(2) show ?thesis by simp
  qed
  with s show ?thesis
    unfolding strip_def by (intro strip_by_id) simp_all
qed

lemma normalize_single_suffix_name:
  assumes "s \<in> set single_suffixes"
  shows "normalize_name (Some s) = s"
proof -
  from assms consider "s = [30465]" | "s = [24066]" | "s = [21306]" | "s = [21439]"
    | "s = [33258, 27835, 24030]" | "s = [30431]"
    by (auto simp: single_suffixes_def)
  then show ?thesis
    by cases (simp_all add: normalize_eval string_defs)
qed

lemma normalize_one_suffix:
  assumes s: "s \<in> set single_suffixes" and r: "r \<noteq> []" "\<not> isspace (hd r)"
    and clean: "\<forall>u\<in>set suffixes_to_remove. \<not> endswith r u"
  shows "normalize_name (Some (r @ s)) = r"
proof -
  from strip_remainder_suffix [OF s] r have st: "strip (r @ s) = r @ s" by simp
  from clean have c: "\<not> endswith r [30465]" "\<not> endswith r [24066]" "\<not> endswith r [21306]"
    "\<not> endswith r [21439]" "\<not> endswith r [33258, 27835, 24030]"
    "\<not> endswith r [33258, 27835, 21439]" "\<not> endswith r [22320, 21306]" "\<not> endswith r [30431]"
    by (simp_all add: suffixes_to_remove_def)
  have keep: "remove_suffix r u = r" if "\<not> endswith r u" for u
    using that by (simp add: remove_suffix_def)
  have cut: "remove_suffix (r @ u) u = r" if "u \<noteq> []" for u
    using r(1) that by (simp add: remove_suffix_def drop_last_def endswith_def)
  have skip: "remove_suffix (r @ v) u = r @ v" if "v \<noteq> []" "u \<noteq> []" "last v \<noteq> last u" for u v
  proof -
    have "\<not> endswith (r @ v) u"
    proof
      assume "endswith (r @ v) u"
      then obtain q where "r @ v = q @ u" by (auto simp: endswith_append_iff)
      then have "last (r @ v) = last (q @ u)" by simp
      with that show False by simp
    qed
    then show ?thesis by (simp add: remove_suffix_def)
  qed
  from s consider "s = [30465]" | "s = [24066]" | "s = [21306]" | "s = [21439]"
    | "s = [33258, 27835, 24030]" | "s = [30431]"
    by (auto simp: single_suffixes_def)
  then have "foldl remove_suffix (r @ s) suffixes_to_remove = r"
    by cases (simp_all add: suffixes_to_remove_def cut skip keep c)
  with st show ?thesis by (simp add: normalize_name_def)
qed

lemma dropWhile_same_length:
  assumes "length (dropWhile P xs) = length xs"
  shows "dropWhile P xs = xs"
proof -
  have "length (takeWhile P xs) + length (dropWhile P xs) = length xs"
    by (metis length_append takeWhile_dropWhile_id)
  with assms have "takeWhile P xs = []" by simp
  with takeWhile_dropWhile_id [of P xs] show ?thesis by simp
qed

lemma strip_by_length: "length (strip_by P n) \<le> length n"
proof -
  have "length (dropWhile P (rev (dropWhile P n))) \<le> length (rev (dropWhile P n))"
    by (rule length_dropWhile_le)
  also have "\<dots> \<le> length n" by (simp add: length_dropWhile_le)
  finally show ?thesis by (simp add: strip_by_def)
qed

lemma strip_by_same_length:
  assumes "length (strip_by P n) = length n"
  shows "strip_by P n = n"
proof -
  have a: "length (dropWhile P (rev (dropWhile P n))) \<le> length (dropWhile P n)"
    using length_dropWhile_le [of P "rev (dropWhile P n)"] by simp
  have b: "length (dropWhile P n) \<le> length n" by (rule length_dropWhile_le)
  from assms have "length (dropWhile P (rev (dropWhile P n))) = length n"
    by (simp add: strip_by_def)
  with a b have "length (dropWhile P n) = length n"
    and "length (dropWhile P (rev (dropWhile P n))) = length (rev (dropWhile P n))"
    by simp_all
  then have "dropWhile P n = n" and "dropWhile P (rev (dropWhile P n)) = rev (dropWhile P n)"
    by (auto intro: dropWhile_same_length)
  then show ?thesis by (simp add: strip_by_def)
qed

lemma strip_by_ends:
  assumes "strip_by P n \<noteq> []"
  shows "\<not> P (hd (strip_by P n))" and "\<not> P (last (strip_by P n))"
proof -
  let ?d = "dropWhile P n"
  let ?m = "dropWhile P (rev ?d)"
  from assms have m: "?m \<noteq> []" by (simp add: strip_by_def)
  then have "\<not> P (hd ?m)" by (rule hd_dropWhile)
  with m show "\<not> P (last (strip_by P n))" by (simp add: strip_by_def last_rev)
  have "rev ?d = takeWhile P (rev ?d) @ ?m" by simp
  then have "?d = rev ?m @ rev (takeWhile P (rev ?d))"
    by (metis rev_append rev_rev_ident)
  with m have "hd ?d = hd (rev ?m)" by (metis hd_append2 rev_is_Nil_conv)
  moreover have "?d \<noteq> []"
  proof
    assume "?d = []"
    with m show False by simp
  qed
  then have "\<not> P (hd ?d)" by (rule hd_dropWhile)
  ultimately show "\<not> P (hd (strip_by P n))" by (simp add: strip_by_def)
qed

lemma strip_strip: "strip (strip n) = strip n"
proof (cases "strip n = []")
  case True
  have "strip [] = []" by (simp add: strip_def strip_by_def)
  with True show ?thesis by simp
next
  case False
  then have ne: "strip_by isspace n \<noteq> []" by (simp add: strip_def)
  from strip_by_ends [OF ne] ne show ?thesis
    unfolding strip_def by (simp add: strip_by_id)
qed

lemma remove_suffix_length: "length (remove_suffix n u) \<le> length n"
  by (simp add: remove_suffix_def drop_last_def)

lemma foldl_remove_suffix_length: "length (foldl remove_suffix n sfx) \<le> length n"
proof (induction sfx arbitrary: n)
  case Nil
  show ?case by simp
next
  case (Cons u sfx)
  have "length (foldl remove_suffix (remove_suffix n u) sfx) \<le> length (remove_suffix n u)"
    by (rule Cons.IH)
  also have "\<dots> \<le> length n" by (rule remove_suffix_length)
  finally show ?case by simp
qed

lemma foldl_remove_suffix_shorter:
  assumes "\<exists>u\<in>set sfx. endswith n u \<and> length u < length n"
  shows "length (foldl remove_suffix n sfx) < length n"
  using assms
proof (induction sfx arbitrary: n)
  case Nil
  then show ?case by simp
next
  case (Cons u sfx)
  show ?case
  proof (cases "endswith n u \<and> length u < length n")
    case True
    then have "length (remove_suffix n u) < length n"
      by (cases u) (auto simp: remove_suffix_def drop_last_def)
    with foldl_remove_suffix_length [of "remove_suffix n u" sfx] show ?thesis by simp
  next
    case False
    then have "remove_suffix n u = n" by (auto simp: remove_suffix_def)
    moreover from False Cons.prems have "\<exists>u\<in>set sfx. endswith n u \<and> length u < length n"
      by auto
    ultimately show ?thesis using Cons.IH by simp
  qed
qed

lemma foldl_remove_suffix_keep:
  assumes "\<forall>u\<in>set sfx. \<not> (endswith n u \<and> length u < length n)"
  shows "foldl remove_suffix n sfx = n"
  using assms by (induction sfx) (auto simp: remove_suffix_def)

lemma normalize_name_fixpoint: "normalize_name (Some y) = y \<longleftrightarrow> normal_form y"
proof
  assume "normal_form y"
  then show "normalize_name (Some y) = y"
    by (simp add: normal_form_def normalize_name_def foldl_remove_suffix_keep)
next
  assume fp: "normalize_name (Some y) = y"
  have "length (foldl remove_suffix (strip y) suffixes_to_remove) \<le> length (strip y)"
    by (rule foldl_remove_suffix_length)
  with fp have "length y \<le> length (strip y)" by (simp add: normalize_name_def)
  with strip_by_length [of isspace y] have "length (strip y) = length y"
    by (simp add: strip_def)
  then have st: "strip y = y"
    unfolding strip_def by (rule strip_by_same_length)
  have "\<not> (endswith y u \<and> length u < length y)" if "u \<in> set suffixes_to_remove" for u
  proof
    assume "endswith y u \<and> length u < length y"
    with that have "length (foldl remove_suffix y suffixes_to_remove) < length y"
      by (intro foldl_remove_suffix_shorter) auto
    with fp st show False by (simp add: normalize_name_def)
  qed
  with st show "normal_form y" by (simp add: normal_form_def)
qed

lemma normalize_no_suffix:
  assumes "\<forall>u\<in>set suffixes_to_remove. \<not> endswith (strip n) u"
  shows "normalize_name (Some n) = strip n"
  using assms by (simp add: normalize_name_def foldl_remove_suffix_keep)

lemma normal_form_clean:
  assumes "strip r = r" and "\<forall>u\<in>set suffixes_to_remove. \<not> endswith r u"
  shows "normal_form r"
  using assms by (simp add: normal_form_def)

lemma suffixes_nonempty: "[] \<notin> set suffixes_to_remove"
  by (simp add: suffixes_to_remove_def)

text \<open>
  A name that ends with several of the six suffixes, those listed earlier standing
  later: the loop removes them all.
\<close>

lemma single_chars_not_space:
  assumes "s \<in> set single_suffixes" and "x \<in> set s"
  shows "\<not> isspace x"
  using assms by (auto simp: single_suffixes_def isspace_def)

lemma strip_remainder_suffixes:
  assumes ss: "set ss \<subseteq> set single_suffixes" "ss \<noteq> []" and r: "r \<noteq> []" "\<not> isspace (hd r)"
  shows "strip (r @ concat (rev ss)) = r @ concat (rev ss)"
proof -
  let ?v = "concat (rev ss)"
  from ss(2) obtain s where s: "s \<in> set ss" by (cases ss) auto
  with ss(1) have "s \<noteq> []" by (auto dest: single_not_space)
  with s have ne: "?v \<noteq> []" by auto
  then have "last ?v \<in> set ?v" by (rule last_in_set)
  then obtain s' where s': "s' \<in> set ss" "last ?v \<in> set s'" by auto
  from s'(1) ss(1) have "s' \<in> set single_suffixes" by auto
  from single_chars_not_space [OF this s'(2)] have "\<not> isspace (last ?v)" .
  with ne r show ?thesis
    unfolding strip_def by (intro strip_by_id) simp_all
qed

lemma normalize_suffix_stack:
  assumes ss: "ss \<in> set (subseqs single_suffixes)" "ss \<noteq> []"
    and r: "r \<noteq> []" "\<not> isspace (hd r)"
    and clean: "\<forall>u\<in>set suffixes_to_remove. \<not> endswith r u"
  shows "normalize_name (Some (r @ concat (rev ss))) = r"
proof -
  from ss(1) have "set ss \<subseteq> set single_suffixes"
    using subseqs_powset [of single_suffixes] by auto
  from strip_remainder_suffixes [OF this ss(2) r]
  have st: "strip (r @ concat (rev ss)) = r @ concat (rev ss)" .
  have keep: "remove_suffix r u = r" if "u \<in> set suffixes_to_remove" for u
    using that clean by (simp add: remove_suffix_def)
  have k: "remove_suffix r [30465] = r" "remove_suffix r [24066] = r" "remove_suffix r [21306] = r"
    "remove_suffix r [21439] = r" "remove_suffix r [33258, 27835, 24030] = r"
    "remove_suffix r [33258, 27835, 21439] = r" "remove_suffix r [22320, 21306] = r"
    "remove_suffix r [30431] = r"
    by (rule keep, simp add: suffixes_to_remove_def)+
  have cut: "remove_suffix (r @ v) [x] = r @ butlast v" if "v \<noteq> []" "last v = x" for v x
  proof -
    from that have v: "v = butlast v @ [x]" by (metis append_butlast_last_id)
    have "remove_suffix (r @ butlast v @ [x]) [x] = r @ butlast v"
      using r(1) by (simp add: remove_suffix_def drop_last_def endswith_def)
    with v show ?thesis by simp
  qed
  have cut3: "remove_suffix (r @ [33258, 27835, 24030]) [33258, 27835, 24030] = r"
    "remove_suffix (r @ [x, 33258, 27835, 24030]) [33258, 27835, 24030] = r @ [x]" for x
    using r(1) by (simp_all add: remove_suffix_def drop_last_def endswith_def)
  have skip: "remove_suffix (r @ v) u = r @ v" if "v \<noteq> []" "u \<noteq> []" "last v \<noteq> last u" for u v
  proof -
    have "\<not> endswith (r @ v) u"
    proof
      assume "endswith (r @ v) u"
      then obtain q where "r @ v = q @ u" by (auto simp: endswith_append_iff)
      then have "last (r @ v) = last (q @ u)" by simp
      with that show False by simp
    qed
    then show ?thesis by (simp add: remove_suffix_def)
  qed
  from ss have "foldl remove_suffix (r @ concat (rev ss)) suffixes_to_remove = r"
    unfolding single_suffixes_def
    by (simp add: Let_def) (elim disjE; simp add: suffixes_to_remove_def cut cut3 skip k)
  with st show ?thesis by (simp add: normalize_name_def)
qed

section \<open>Scoped matching\<close>

text \<open>
  C1.  Let \<open>link_data\<close> return, and let the level-1 region \<open>p\<close> at position \<open>i\<close> be
  linked: the province table has its name column and \<open>rp\<close> is its first row whose
  normalized name is that of \<open>p\<close>.  Then the identifier of \<open>p\<close> after linking is that of
  \<open>rp\<close>, and for its level-2 child \<open>c\<close> at position \<open>j\<close>, the city table having its name
  and parent columns: if \<open>rc\<close> is the first row of the city table, in table order, whose
  parent identifier is the identifier just assigned to \<open>p\<close> and whose normalized name
  is that of \<open>c\<close>, then \<open>c\<close> gets the identifier and geometry of \<open>rc\<close>; if there is no
  such row, \<open>c\<close> is left as it was.  A row with another parent identifier, or with
  none, is not a candidate, and of several candidates the first wins
  (\<open>first_scoped_Some_iff\<close>).  The
  same holds one level down, for every level-3 child of a linked \<open>c\<close>, with the district
  table scoped by the identifier just assigned to \<open>c\<close>.
\<close>

theorem link_data_scoped_first_match:
  fixes md md' :: ProcessedData and i j :: nat
  defines "p \<equiv> md ! i" and "p' \<equiv> md' ! i"
  defines "c \<equiv> children p ! j" and "c' \<equiv> children p' ! j"
  assumes ret: "link_data md shp = (md', None)" and tabs: "essential shp = Some (gp, gc, gd)"
    and i: "i < length md" and j: "j < length (children p)"
    and p_col: "''pr_name'' \<in> set (columns gp)"
    and p_row: "first_named ''pr_name'' (name p) gp = Some rp"
    and c_cols: "''ct_name'' \<in> set (columns gc)" "''pr_adcode'' \<in> set (columns gc)"
  shows "adcode p' = code_cell rp ''pr_adcode'' \<and>
     (case first_scoped ''pr_adcode'' ''ct_name'' (adcode p') (name c) gc of
        None \<Rightarrow> c' = c
      | Some rc \<Rightarrow>
          adcode c' = code_cell rc ''ct_adcode'' \<and>
          geometry c' = geometry_cell rc \<and>
          (''dt_name'' \<in> set (columns gd) \<and> ''ct_adcode'' \<in> set (columns gd) \<longrightarrow>
           (\<forall>l<length (children c).
              case first_scoped ''ct_adcode'' ''dt_name'' (adcode c') (name (children c ! l)) gd of
                None \<Rightarrow> children c' ! l = children c ! l
              | Some rd \<Rightarrow>
                  adcode (children c' ! l) = code_cell rd ''dt_adcode'' \<and>
                  geometry (children c' ! l) = geometry_cell rd)))"
proof -
  from link_data_None [OF ret tabs] i have "link_province gp gc gd p = (p', None)"
    unfolding p_def p'_def by (rule list_all2_nthD)
  from link_province_result [OF this p_col] p_row
  have p1: "adcode p' = code_cell rp ''pr_adcode''"
    and cs: "list_all2 (\<lambda>c c'. link_city gc gd p' c = (c', None)) (children p) (children p')"
    by simp_all
  from cs j have "link_city gc gd p' c = (c', None)"
    unfolding c_def c'_def by (rule list_all2_nthD)
  note city = link_city_result [OF this c_cols]
  show ?thesis
  proof (cases "first_scoped ''pr_adcode'' ''ct_name'' (adcode p') (name c) gc")
    case None
    with city p1 show ?thesis by simp
  next
    case (Some rc)
    with city have c1: "adcode c' = code_cell rc ''ct_adcode''"
      "geometry c' = geometry_cell rc"
      and ds: "list_all2 (\<lambda>d d'. link_district gd c' d = (d', None)) (children c) (children c')"
      by simp_all
    have "case first_scoped ''ct_adcode'' ''dt_name'' (adcode c') (name (children c ! l)) gd of
            None \<Rightarrow> children c' ! l = children c ! l
          | Some rd \<Rightarrow>
              adcode (children c' ! l) = code_cell rd ''dt_adcode'' \<and>
              geometry (children c' ! l) = geometry_cell rd"
      if "''dt_name'' \<in> set (columns gd)" "''ct_adcode'' \<in> set (columns gd)"
        and "l < length (children c)" for l
    proof -
      from ds that(3) have "link_district gd c' (children c ! l) = (children c' ! l, None)"
        by (rule list_all2_nthD)
      from link_district_result [OF this that(1,2)] show ?thesis .
    qed
    with Some p1 c1 show ?thesis by simp
  qed
qed

lemma ex_first_named:
  "first_named ''pr_name'' (name (ex_forest ! 0)) ex_provinces = Some row_guangdong"
  by (simp add: first_named_def example_defs string_defs normalize_eval cong: weak_congs)

lemma ex_first_city:
  "first_scoped ''pr_adcode'' ''ct_name'' (Some 44) (name (children (ex_forest ! 0) ! 0)) ex_cities
     = Some city_first"
  by (simp add: first_scoped_def cell_eq_def example_defs string_defs normalize_eval cong: weak_congs)

lemma ex_first_district:
  "first_scoped ''ct_adcode'' ''dt_name'' (Some 4401)
     (name (children (children (ex_forest ! 0) ! 0) ! 0)) ex_districts
     = Some district_first"
  by (simp add: first_scoped_def cell_eq_def example_defs string_defs normalize_eval cong: weak_congs)

theorem link_data_scoped_first_match_witness:
  "adcode (ex_linked ! 0) = Some 44 \<and>
   adcode (children (ex_linked ! 0) ! 0) = Some 4401 \<and>
   geometry (children (ex_linked ! 0) ! 0) = Some (Geometry 4) \<and>
   adcode (children (children (ex_linked ! 0) ! 0) ! 0) = Some 440104 \<and>
   geometry (children (children (ex_linked ! 0) ! 0) ! 0) = Some (Geometry 7)"
proof -
  have cols: "''pr_name'' \<in> set (columns ex_provinces)" "''ct_name'' \<in> set (columns ex_cities)"
    "''pr_adcode'' \<in> set (columns ex_cities)" "''dt_name'' \<in> set (columns ex_districts)"
    "''ct_adcode'' \<in> set (columns ex_districts)"
    by (simp_all add: example_defs)
  have len: "0 < length ex_forest" "0 < length (children (ex_forest ! 0))"
    "0 < length (children (children (ex_forest ! 0) ! 0))"
    by (simp_all add: example_defs)
  have cells: "code_cell row_guangdong ''pr_adcode'' = Some 44"
    "code_cell city_first ''ct_adcode'' = Some 4401"
    "geometry_cell city_first = Some (Geometry 4)"
    "code_cell district_first ''dt_adcode'' = Some 440104"
    "geometry_cell district_first = Some (Geometry 7)"
    by (simp_all add: example_defs)
  note t = link_data_scoped_first_match [OF ex_link ex_essential len(1,2) cols(1) ex_first_named cols(2,3)]
  from t have a: "adcode (ex_linked ! 0) = Some 44"
    by (simp add: cells)
  have fc: "first_scoped ''pr_adcode'' ''ct_name'' (adcode (ex_linked ! 0))
          (name (children (ex_forest ! 0) ! 0)) ex_cities = Some city_first"
    unfolding a by (rule ex_first_city)
  note r = conjunct2 [OF t, unfolded fc option.case cells]
  from r have b: "adcode (children (ex_linked ! 0) ! 0) = Some 4401"
    "geometry (children (ex_linked ! 0) ! 0) = Some (Geometry 4)"
    by blast+
  have fd: "first_scoped ''ct_adcode'' ''dt_name'' (adcode (children (ex_linked ! 0) ! 0))
          (name (children (children (ex_forest ! 0) ! 0) ! 0)) ex_districts = Some district_first"
    unfolding b by (rule ex_first_district)
  from r cols(4,5) len(3)
  have "case first_scoped ''ct_adcode'' ''dt_name'' (adcode (children (ex_linked ! 0) ! 0))
              (name (children (children (ex_forest ! 0) ! 0) ! 0)) ex_districts of
         None \<Rightarrow> children (children (ex_linked ! 0) ! 0) ! 0 = children (children (ex_forest ! 0) ! 0) ! 0
       | Some rd \<Rightarrow>
           adcode (children (children (ex_linked ! 0) ! 0) ! 0) = code_cell rd ''dt_adcode'' \<and>
           geometry (children (children (ex_linked ! 0) ! 0) ! 0) = geometry_cell rd"
    by blast
  then have "adcode (children (children (ex_linked ! 0) ! 0) ! 0) = Some 440104 \<and>
        geometry (children (children (ex_linked ! 0) ! 0) ! 0) = Some (Geometry 7)"
    unfolding fd option.case cells .
  with a b show ?thesis by simp
qed

section \<open>Missing tables\<close>

text \<open>
  C2.  When one of the three tables \<open>province\<close>, \<open>city\<close>, \<open>district\<close> is absent from
  \<open>shp_data\<close>, is \<open>None\<close>, or is empty, \<open>link_data\<close> returns the forest it was given,
  every field of every region as it was.
\<close>

theorem link_data_without_table:
  assumes "k \<in> {''province'', ''city'', ''district''}"
    and "shp k = None \<or> shp k = Some None \<or> (\<exists>t. shp k = Some (Some t) \<and> gdf_empty t)"
  shows "link_data md shp = (md, None)"
proof -
  from assms(2) have "loaded shp k = None"
    by (auto simp: loaded_def)
  with assms(1) have "essential shp = None"
    by (auto simp: essential_def split: option.splits)
  then show ?thesis
    by (simp add: link_data_def)
qed

theorem link_data_without_table_witness:
  "link_data ex_forest (ex_shp(''city'' := Some (Some \<lparr>columns = [''ct_name''], rows = []\<rparr>)))
     = (ex_forest, None)"
  by (rule link_data_without_table [of "''city''"]) (simp_all add: gdf_empty_def)

section \<open>Misses\<close>

text \<open>
  C3.  Let \<open>link_data\<close> return.  A level-1 region that misses is returned as it was,
  with its whole subtree; so is a level-2 region that misses under a linked level-1
  region, and a level-3 region that misses under a linked level-2 region.  Identifier
  and geometry of a region that misses, and of all its descendants, are therefore what
  they were: unset when they were unset, as they are on every parsed forest
  (\<open>parse_markdown_unlinked\<close>).  The loop body returns normally on a region that misses.
\<close>

theorem link_data_miss:
  fixes md md' :: ProcessedData and i j l :: nat
  defines "p \<equiv> md ! i" and "p' \<equiv> md' ! i"
  defines "c \<equiv> children p ! j" and "c' \<equiv> children p' ! j"
  defines "d \<equiv> children c ! l" and "d' \<equiv> children c' ! l"
  assumes ret: "link_data md shp = (md', None)" and tabs: "essential shp = Some (gp, gc, gd)"
    and i: "i < length md"
  shows "(province_miss gp p \<longrightarrow>
            link_province gp gc gd p = (p, None) \<and> p' = p \<and>
            (unlinked_province p \<longrightarrow> unlinked_province p')) \<and>
         (\<not> province_miss gp p \<and> j < length (children p) \<and> city_miss gc (adcode p') c \<longrightarrow>
            link_city gc gd p' c = (c, None) \<and> c' = c \<and>
            (unlinked_city c \<longrightarrow> unlinked_city c')) \<and>
         (\<not> province_miss gp p \<and> j < length (children p) \<and> \<not> city_miss gc (adcode p') c \<and>
          l < length (children c) \<and> district_miss gd (adcode c') d \<longrightarrow>
            link_district gd c' d = (d, None) \<and> d' = d \<and>
            (unlinked d \<longrightarrow> unlinked d'))"
proof -
  from link_data_None [OF ret tabs] i have prov: "link_province gp gc gd p = (p', None)"
    unfolding p_def p'_def by (rule list_all2_nthD)
  have 1: "link_province gp gc gd p = (p, None) \<and> p' = p" if "province_miss gp p"
    using link_province_miss [OF that, of gc gd] prov by simp
  have city: "link_city gc gd p' c = (c', None)"
    if "\<not> province_miss gp p" "j < length (children p)"
  proof -
    from that(1) obtain rp where col: "''pr_name'' \<in> set (columns gp)"
      and "first_named ''pr_name'' (name p) gp = Some rp"
      by (auto simp: province_miss_def)
    with link_province_result [OF prov col]
    have "list_all2 (\<lambda>c c'. link_city gc gd p' c = (c', None)) (children p) (children p')"
      by simp
    from this that(2) show ?thesis
      unfolding c_def c'_def by (rule list_all2_nthD)
  qed
  have 2: "link_city gc gd p' c = (c, None) \<and> c' = c"
    if "\<not> province_miss gp p" "j < length (children p)" "city_miss gc (adcode p') c"
    using link_city_miss [OF that(3), of gd] city [OF that(1,2)] by simp
  have 3: "link_district gd c' d = (d, None) \<and> d' = d"
    if "\<not> province_miss gp p" "j < length (children p)" "\<not> city_miss gc (adcode p') c"
      "l < length (children c)" "district_miss gd (adcode c') d"
  proof -
    from that(3) obtain rc where cols: "''ct_name'' \<in> set (columns gc)"
      "''pr_adcode'' \<in> set (columns gc)"
      and "first_scoped ''pr_adcode'' ''ct_name'' (adcode p') (name c) gc = Some rc"
      by (auto simp: city_miss_def)
    with link_city_result [OF city [OF that(1,2)] cols]
    have "list_all2 (\<lambda>d d'. link_district gd c' d = (d', None)) (children c) (children c')"
      by simp
    from this that(4) have "link_district gd c' d = (d', None)"
      unfolding d_def d'_def by (rule list_all2_nthD)
    with link_district_miss [OF that(5)] show ?thesis by simp
  qed
  from 1 2 3 show ?thesis by simp
qed

theorem link_data_miss_witness:
  "ex_misses_linked ! 1 = ex_misses ! 1 \<and>
   unlinked_province (ex_misses_linked ! 1) \<and>
   children (ex_misses_linked ! 0) ! 1 = children (ex_misses ! 0) ! 1 \<and>
   unlinked_city (children (ex_misses_linked ! 0) ! 1) \<and>
   children (children (ex_misses_linked ! 0) ! 0) ! 0 = children (children (ex_misses ! 0) ! 0) ! 0 \<and>
   unlinked (children (children (ex_misses_linked ! 0) ! 0) ! 0)"
proof -
  have miss1: "province_miss ex_provinces (ex_misses ! 1)"
    by (simp add: province_miss_def first_named_def example_defs ex_misses_def string_defs
        normalize_eval cong: weak_congs)
  have hit0: "\<not> province_miss ex_provinces (ex_misses ! 0)"
    by (simp add: province_miss_def first_named_def example_defs ex_misses_def string_defs
        normalize_eval cong: weak_congs)
  have miss01: "city_miss ex_cities (adcode (ex_misses_linked ! 0)) (children (ex_misses ! 0) ! 1)"
    by (simp add: city_miss_def first_scoped_def cell_eq_def example_defs ex_misses_def ex_misses_linked_def
        string_defs normalize_eval cong: weak_congs)
  have hit00: "\<not> city_miss ex_cities (adcode (ex_misses_linked ! 0)) (children (ex_misses ! 0) ! 0)"
    by (simp add: city_miss_def first_scoped_def cell_eq_def example_defs ex_misses_def ex_misses_linked_def
        string_defs normalize_eval cong: weak_congs)
  have miss000: "district_miss ex_districts (adcode (children (ex_misses_linked ! 0) ! 0))
      (children (children (ex_misses ! 0) ! 0) ! 0)"
    by (simp add: district_miss_def first_scoped_def cell_eq_def example_defs ex_misses_def
        ex_misses_linked_def string_defs normalize_eval cong: weak_congs)
  have len: "1 < length ex_misses" "0 < length ex_misses"
    "1 < length (children (ex_misses ! 0))" "0 < length (children (ex_misses ! 0))"
    "0 < length (children (children (ex_misses ! 0) ! 0))"
    by (simp_all add: ex_misses_def region_of_def)
  have un: "unlinked_province (ex_misses ! 1)" "unlinked_city (children (ex_misses ! 0) ! 1)"
    "unlinked (children (children (ex_misses ! 0) ! 0) ! 0)"
    by (simp_all add: ex_misses_def region_of_def unlinked_province_def unlinked_city_def
        unlinked_def)
  from link_data_miss [OF ex_misses_link ex_essential len(1), of 0 0] miss1 un(1)
  have a: "ex_misses_linked ! 1 = ex_misses ! 1 \<and> unlinked_province (ex_misses_linked ! 1)"
    by blast
  from link_data_miss [OF ex_misses_link ex_essential len(2), of 1 0] hit0 miss01 len(3) un(2)
  have b: "children (ex_misses_linked ! 0) ! 1 = children (ex_misses ! 0) ! 1 \<and>
           unlinked_city (children (ex_misses_linked ! 0) ! 1)"
    by blast
  from link_data_miss [OF ex_misses_link ex_essential len(2), of 0 0] hit0 hit00 miss000 len(4,5) un(3)
  have c: "children (children (ex_misses_linked ! 0) ! 0) ! 0 = children (children (ex_misses ! 0) ! 0) ! 0 \<and>
           unlinked (children (children (ex_misses_linked ! 0) ! 0) ! 0)"
    by blast
  from a b c show ?thesis by blast
qed

section \<open>What normalize_name removes\<close>

text \<open>
  C4, as amended.  \<open>normalize_name\<close> strips surrounding whitespace and then removes from
  the end of the stripped name a selection of the listed suffixes, each at most once and
  in the order of the list, so that a suffix listed earlier is removed earlier and
  stands later in the name; it never leaves an empty remainder, so the result is not
  empty unless the stripped name is.  In particular, a name that is just one of the six
  suffixes of \<open>single_suffixes\<close> is returned unchanged; and a name made of a non-empty
  \<open>r\<close> that does not start with whitespace and does not itself end with a listed suffix,
  followed by one or more of these six suffixes, those listed earlier standing later,
  yields exactly \<open>r\<close>: all of them are removed, not one only.  This is said of the names
  only in which \<open>r\<close> with the suffix next to it does not end with one of the two suffixes
  of \<open>shadowed_suffixes\<close>.
\<close>

theorem normalize_name_removes:
  "(\<exists>us\<in>set (subseqs suffixes_to_remove).
      strip n = normalize_name (Some n) @ concat (rev us)) \<and>
   (strip n \<noteq> [] \<longrightarrow> normalize_name (Some n) \<noteq> []) \<and>
   (s \<in> set single_suffixes \<longrightarrow> normalize_name (Some s) = s) \<and>
   (ss \<in> set (subseqs single_suffixes) \<and> ss \<noteq> [] \<and> r \<noteq> [] \<and> \<not> isspace (hd r) \<and>
    (\<forall>u\<in>set suffixes_to_remove. \<not> endswith r u) \<and>
    (\<forall>v\<in>set shadowed_suffixes. \<not> endswith (r @ last ss) v) \<longrightarrow>
      normalize_name (Some (r @ concat (rev ss))) = r)"
proof -
  from foldl_remove_suffix [OF suffixes_nonempty, of "strip n"]
  have "(\<exists>us\<in>set (subseqs suffixes_to_remove).
      strip n = normalize_name (Some n) @ concat (rev us)) \<and>
   (strip n \<noteq> [] \<longrightarrow> normalize_name (Some n) \<noteq> [])"
    by (auto simp: normalize_name_def)
  then show ?thesis
    using normalize_single_suffix_name [of s] normalize_suffix_stack [of ss r] by blast
qed

text \<open>
  The theorem at a name with surrounding whitespace, at the name that is just the suffix
  U+5E02, and at a name that ends with the two suffixes U+53BF U+5E02.
\<close>

theorem normalize_name_removes_witness:
  "normalize_name (Some (ascii ''  Yuexiu'' @ [21306, 32])) \<noteq> [] \<and>
   normalize_name (Some [24066]) = [24066] \<and>
   normalize_name (Some (ascii ''Guangzhou'' @ [21439, 24066])) = ascii ''Guangzhou''"
proof -
  have s: "[24066] \<in> set single_suffixes"
    by (simp add: single_suffixes_def)
  have ss: "[[24066], [21439]] \<in> set (subseqs single_suffixes)" "[[24066], [21439]] \<noteq> []"
    by (simp_all add: single_suffixes_def Let_def)
  have r: "ascii ''Guangzhou'' \<noteq> []" "\<not> isspace (hd (ascii ''Guangzhou''))"
    "\<forall>u\<in>set suffixes_to_remove. \<not> endswith (ascii ''Guangzhou'') u"
    by (simp_all add: ascii_def isspace_def suffixes_to_remove_def endswith_def)
  have v: "\<forall>v\<in>set shadowed_suffixes. \<not> endswith (ascii ''Guangzhou'' @ last [[24066], [21439]]) v"
    by (simp add: ascii_def shadowed_suffixes_def endswith_def)
  have n: "strip (ascii ''  Yuexiu'' @ [21306, 32]) \<noteq> []"
    by (simp add: string_defs)
  have c: "ascii ''Guangzhou'' @ concat (rev [[24066], [21439]]) = ascii ''Guangzhou'' @ [21439, 24066]"
    by simp
  from normalize_name_removes [of "ascii ''  Yuexiu'' @ [21306, 32]" "[24066]"
      "[[24066], [21439]]" "ascii ''Guangzhou''"]
    s ss r v n show ?thesis unfolding c by blast
qed

text \<open>
  The claim as stated fails: two suffixes are removed from a name that ends with U+53BF
  U+5E02, and the name that is just the suffix U+81EA U+6CBB U+53BF is not returned
  unchanged.
\<close>

theorem normalize_name_removes_two:
  "normalize_name (Some (ascii ''X'' @ [21439, 24066])) = ascii ''X'' \<and>
   normalize_name (Some [33258, 27835, 21439]) \<noteq> [33258, 27835, 21439]"
  by (simp add: normalize_eval string_defs)

section \<open>Where normalize_name is idempotent\<close>

text \<open>
  C5, as amended.  Applying \<open>normalize_name\<close> to its own output returns that output
  unchanged exactly when the output is in normal form: stripping leaves it as it is, and
  it ends with no listed suffix shorter than itself.  This is the case when the stripped
  name ends with no listed suffix, and when the name is \<open>r @ s\<close> with \<open>s\<close> one of the six
  suffixes of \<open>single_suffixes\<close> and a non-empty \<open>r\<close> without surrounding whitespace
  that ends with no listed suffix.
\<close>

theorem normalize_name_idempotent_iff:
  "(normalize_name (Some (normalize_name (Some n))) = normalize_name (Some n) \<longleftrightarrow>
      normal_form (normalize_name (Some n))) \<and>
   ((\<forall>u\<in>set suffixes_to_remove. \<not> endswith (strip n) u) \<longrightarrow>
      normalize_name (Some (normalize_name (Some n))) = normalize_name (Some n)) \<and>
   (s \<in> set single_suffixes \<and> r \<noteq> [] \<and> strip r = r \<and>
    (\<forall>u\<in>set suffixes_to_remove. \<not> endswith r u) \<longrightarrow>
      normalize_name (Some (normalize_name (Some (r @ s)))) = normalize_name (Some (r @ s)))"
proof -
  have 1: "normalize_name (Some (normalize_name (Some n))) = normalize_name (Some n) \<longleftrightarrow>
      normal_form (normalize_name (Some n))"
    by (rule normalize_name_fixpoint)
  have 2: "normalize_name (Some (normalize_name (Some n))) = normalize_name (Some n)"
    if "\<forall>u\<in>set suffixes_to_remove. \<not> endswith (strip n) u"
  proof -
    from that have "normal_form (strip n)"
      by (intro normal_form_clean strip_strip)
    with normalize_no_suffix [OF that] show ?thesis
      by (simp add: normalize_name_fixpoint)
  qed
  have 3: "normalize_name (Some (normalize_name (Some (r @ s)))) = normalize_name (Some (r @ s))"
    if "s \<in> set single_suffixes" "r \<noteq> []" "strip r = r"
      "\<forall>u\<in>set suffixes_to_remove. \<not> endswith r u"
  proof -
    from that(2,3) have "strip_by isspace r \<noteq> []" by (simp add: strip_def)
    from strip_by_ends(1) [OF this] that(3) have "\<not> isspace (hd r)"
      by (simp add: strip_def)
    from normalize_one_suffix [OF that(1,2) this that(4)]
    have "normalize_name (Some (r @ s)) = r" .
    moreover from that(3,4) have "normal_form r" by (rule normal_form_clean)
    ultimately show ?thesis by (simp add: normalize_name_fixpoint)
  qed
  from 1 2 3 show ?thesis by blast
qed

theorem normalize_name_idempotent_iff_witness:
  "normalize_name (Some (normalize_name (Some (ascii ''Guangdong'' @ [30465])))) =
   normalize_name (Some (ascii ''Guangdong'' @ [30465]))"
proof -
  have s: "[30465] \<in> set single_suffixes"
    by (simp add: single_suffixes_def)
  have r: "ascii ''Guangdong'' \<noteq> []" "strip (ascii ''Guangdong'') = ascii ''Guangdong''"
    "\<forall>u\<in>set suffixes_to_remove. \<not> endswith (ascii ''Guangdong'') u"
    by (simp_all add: string_defs suffixes_to_remove_def endswith_def)
  from normalize_name_idempotent_iff [of "ascii ''Guangdong'' @ [30465]" "[30465]" "ascii ''Guangdong''"]
    s r show ?thesis by blast
qed

text \<open>
  The claim as stated fails on a name that ends with U+7701 U+5E02: the first pass
  removes U+5E02 when U+7701 has already been tried, and the second pass removes U+7701.
\<close>

theorem normalize_name_not_idempotent:
  "normalize_name (Some (ascii ''X'' @ [30465, 24066])) = ascii ''X'' @ [30465] \<and>
   normalize_name (Some (normalize_name (Some (ascii ''X'' @ [30465, 24066])))) = ascii ''X''"
  by (simp add: normalize_eval string_defs)

section \<open>The end-to-end scenario\<close>

text \<open>
  C6.  The five lines: a top-tier heading (\<open>#\<close>, U+7B2C, \<open>1\<close>, U+7AE0, the title
  Guangdong), a mid-tier heading (\<open>##\<close>, the numeral one U+4E00, the separator U+3001, the
  title Guangzhou), the line \<open>overview line\<close>, a bottom-tier heading (\<open>### 1.\<close> and the
  title Yuexiu) and the line \<open>detail line\<close>, each with its line feed, parse into one
  level-1 region Guangdong whose single child is the level-2 region Guangzhou with
  \<open>text_detail\<close> \<open>overview line\<close>, whose single child is the level-3 region Yuexiu with
  \<open>text_detail\<close> \<open>detail line\<close>.
\<close>

theorem parse_markdown_scenario:
  "parse_markdown (Some
     [ascii ''# '' @ [31532, 49, 31456] @ ascii '' Guangdong'' @ [10],
      ascii ''## '' @ [19968, 12289] @ ascii ''Guangzhou'' @ [10],
      ascii ''overview line'' @ [10],
      ascii ''### 1. Yuexiu'' @ [10],
      ascii ''detail line'' @ [10]]) =
   [\<lparr>name = ascii ''Guangdong'', level = 1, adcode = None, parent_name = None,
     parent_adcode = None, text_general = [], text_detail = [], geometry = None,
     children =
       [\<lparr>name = ascii ''Guangzhou'', level = 2, adcode = None,
         parent_name = Some (ascii ''Guangdong''), parent_adcode = None, text_general = [],
         text_detail = ascii ''overview line'', geometry = None,
         children =
           [\<lparr>name = ascii ''Yuexiu'', level = 3, adcode = None,
             parent_name = Some (ascii ''Guangzhou''), parent_adcode = None,
             text_general = [], text_detail = ascii ''detail line'', geometry = None,
             children = ()\<rparr>]\<rparr>]\<rparr>]"
  using ex_parse by (simp add: example_defs)

section \<open>The top-tier general marker\<close>

text \<open>
  C7.  Let \<open>current_province\<close> refer to the region at address \<open>p\<close>, whatever
  \<open>current_city\<close>, \<open>current_district\<close> and the active entity are, and let the stripped
  line match the top-tier general marker.  Then the step flushes the buffer and makes
  \<open>p\<close> the active entity with the active field \<open>text_general\<close>; the buffer is empty
  afterwards when there was an active entity.  If narrative lines \<open>ls\<close> follow, then at
  the next flush their stripped join \<open>added\<close> (blank lines skipped) is appended to the
  \<open>text_general\<close> of the region at \<open>p\<close>, after a line feed when that field has text
  already; the heap changes at address \<open>p\<close> only, so no field of a mid-tier or
  bottom-tier region changes, and the \<open>text_detail\<close> of \<open>p\<close> does not change.
\<close>

theorem general_marker_redirects:
  fixes s :: pstate and marker :: ustr and ls :: "ustr list" and p :: nat
  defines "s1 \<equiv> process_line s marker"
  defines "s2 \<equiv> flush_buffer (foldl process_line s1 ls)"
  defines "added \<equiv> strip (join_nl (current_text_buffer s1 @
                      map strip_nl (filter (\<lambda>l. strip l \<noteq> []) ls)))"
  assumes prov: "current_province s = Some p"
    and marker: "H2_SPECIAL_ZERO_PATTERN (strip marker)"
    and plain: "\<forall>l\<in>set ls. plain l"
  shows "s1 = (flush_buffer s)\<lparr>active_entity := Some p, active_field := text_general_key\<rparr> \<and>
         (active_entity s \<noteq> None \<longrightarrow> current_text_buffer s1 = []) \<and>
         heap s2 =
           (if added = [] then heap s1
            else (heap s1)[p := (heap s1 ! p)\<lparr>text_general :=
                    (if text_general (heap s1 ! p) = [] then added
                     else text_general (heap s1 ! p) @ [10] @ added)\<rparr>]) \<and>
         (\<forall>a. a \<noteq> p \<longrightarrow> heap s2 ! a = heap s1 ! a) \<and>
         (p < length (heap s) \<longrightarrow>
            text_detail (heap s2 ! p) = text_detail (heap s1 ! p) \<and>
            text_general (heap s2 ! p) =
              (if added = [] then text_general (heap s1 ! p)
               else if text_general (heap s1 ! p) = [] then added
               else text_general (heap s1 ! p) @ [10] @ added))"
proof -
  have s1: "s1 = (flush_buffer s)\<lparr>active_entity := Some p, active_field := text_general_key\<rparr>"
    unfolding s1_def by (simp add: process_line_h2_zero [OF prov marker] on_h2_zero_def)
  have buf: "current_text_buffer s1 = []" if "active_entity s \<noteq> None"
    using flush_buffer_clears [OF that] by (simp add: s1)
  let ?s = "foldl process_line s1 ls"
  have fold: "?s = s1\<lparr>current_text_buffer :=
      current_text_buffer s1 @ map strip_nl (filter (\<lambda>l. strip l \<noteq> []) ls)\<rparr>"
    using plain by (rule foldl_plain)
  have act: "active_entity ?s = Some p" "active_field ?s = text_general_key" "heap ?s = heap s1"
    by (simp_all add: fold) (simp_all add: s1)
  have "heap s2 =
           (if added = [] then heap s1
            else (heap s1)[p := (heap s1 ! p)\<lparr>text_general :=
                    (if text_general (heap s1 ! p) = [] then added
                     else text_general (heap s1 ! p) @ [10] @ added)\<rparr>])"
    unfolding s2_def flush_buffer_active [OF act(1)] act added_def
    by (simp add: fold Let_def add_text_def get_text_def set_text_def)
  note heap2 = this
  have others: "heap s2 ! a = heap s1 ! a" if "a \<noteq> p" for a
    using that by (simp add: heap2)
  have len: "length (heap s1) = length (heap s)"
    by (simp add: s1)
  have own: "text_detail (heap s2 ! p) = text_detail (heap s1 ! p) \<and>
            text_general (heap s2 ! p) =
              (if added = [] then text_general (heap s1 ! p)
               else if text_general (heap s1 ! p) = [] then added
               else text_general (heap s1 ! p) @ [10] @ added)"
    if "p < length (heap s)"
    using that len by (simp add: heap2)
  from s1 buf heap2 others own show ?thesis by blast
qed

theorem general_marker_redirects_witness:
  "map text_general (heap (flush_buffer (foldl process_line (process_line ex_state ex_marker) ex_text)))
     = [ascii ''about the province'' @ [10] @ ascii ''more'', [], []] \<and>
   map text_detail (heap (flush_buffer (foldl process_line (process_line ex_state ex_marker) ex_text)))
     = [[], ascii ''overview line'', ascii ''detail line'']"
proof -
  have prov: "current_province ex_state = Some 0"
    by (simp add: ex_state_def)
  define s1 where "s1 = process_line ex_state ex_marker"
  note t = general_marker_redirects [OF prov ex_marker_matches ex_text_plain, folded s1_def]
  note t1 = conjunct1 [OF t] and t3 = conjunct1 [OF conjunct2 [OF conjunct2 [OF t]]]
  have s1: "s1 =
     ex_state\<lparr>heap := (heap ex_state)[2 := (heap ex_state ! 2)\<lparr>text_detail := ascii ''detail line''\<rparr>],
              current_text_buffer := [], active_entity := Some 0,
              active_field := text_general_key\<rparr>"
    unfolding t1
    by (simp add: ex_state_def region_of_def string_defs flush_buffer_def add_text_def
        get_text_def set_text_def Let_def cong: weak_congs)
  have added: "strip (join_nl (current_text_buffer s1 @
                      map strip_nl (filter (\<lambda>l. strip l \<noteq> []) ex_text)))
      = ascii ''about the province'' @ [10] @ ascii ''more''"
    unfolding s1 by (simp add: ex_text_def string_defs cong: weak_congs)
  have "heap (flush_buffer (foldl process_line s1 ex_text)) =
     [region_of (ascii ''Guangdong'') 1 None (ascii ''about the province'' @ [10] @ ascii ''more'')
        [] (Some [1]),
      region_of (ascii ''Guangzhou'') 2 (Some (ascii ''Guangdong'')) []
        (ascii ''overview line'') (Some [2]),
      region_of (ascii ''Yuexiu'') 3 (Some (ascii ''Guangzhou'')) [] (ascii ''detail line'') None]"
    unfolding t3 [unfolded added]
    by (simp add: s1 ex_state_def region_of_def ascii_def)
  then show ?thesis
    unfolding s1_def by (simp add: region_of_def)
qed

section \<open>The ordinals of the mid-tier heading\<close>

text \<open>
  C8.  The list of ordinals in \<open>H2_MD_PATTERN\<close> runs from the numeral for 1 to the
  numeral for 37 and ends with a space and two Bengali digits where the numeral for 38
  (U+4E09 U+5341 U+516B) would stand.  A level-2 heading with the numeral for 38 does
  not match the pattern: after a top-tier heading, the parser takes the line as
  narrative text of the level-1 region and creates no level-2 region.  With the numeral
  for 37 in its place the level-2 region is created (\<open>thirty_seventh_recognized\<close>), and
  so it is for each of the numerals for 1 to 37, whatever the title and the state
  (\<open>h2_numeral_recognized\<close>).
\<close>

theorem thirty_eighth_not_recognized:
  "H2_MD_PATTERN (ascii ''## '' @ [19977, 21313, 20843, 12289] @ ascii ''Foshan'') = None \<and>
   parse_markdown (Some
     [ascii ''# '' @ [31532, 49, 31456] @ ascii '' Guangdong'' @ [10],
      ascii ''## '' @ [19977, 21313, 20843, 12289] @ ascii ''Foshan'' @ [10]]) =
   [\<lparr>name = ascii ''Guangdong'', level = 1, adcode = None, parent_name = None,
     parent_adcode = None, text_general = [],
     text_detail = ascii ''## '' @ [19977, 21313, 20843, 12289] @ ascii ''Foshan'',
     geometry = None, children = []\<rparr>]"
  by (simp add: string_defs pattern_defs parser_defs Let_def cong: weak_congs)

lemma thirty_seventh_recognized:
  "parse_markdown (Some
     [ascii ''# '' @ [31532, 49, 31456] @ ascii '' Guangdong'' @ [10],
      ascii ''## '' @ [19977, 21313, 19971, 12289] @ ascii ''Foshan'' @ [10]]) =
   [\<lparr>name = ascii ''Guangdong'', level = 1, adcode = None, parent_name = None,
     parent_adcode = None, text_general = [], text_detail = [],
     geometry = None, children = [\<lparr>name = ascii ''Foshan'', level = 2, adcode = None,
         parent_name = Some (ascii ''Guangdong''), parent_adcode = None, text_general = [],
         text_detail = [], geometry = None, children = []\<rparr>]\<rparr>]"
  by (simp add: string_defs pattern_defs parser_defs Let_def cong: weak_congs)

section \<open>The frame of link_data\<close>

text \<open>
  C9.  The forest as \<open>link_data\<close> leaves it, which is the forest it returns when it
  returns, has the same regions in the same order as the forest it was given, each with
  the same name, level, parent name, parent identifier, general text, detail text and
  children sequence: the two forests are equal once identifier and geometry are
  forgotten.  This holds of every forest and every collection of tables.  The forest
  that the program gives to \<open>link_data\<close> is the one that \<open>parse_markdown\<close> returns, and
  on it an identifier or a geometry that changes was unset and is set afterwards.
\<close>

theorem link_data_frame:
  "map clear_province (fst (link_data md shp)) = map clear_province md \<and>
   list_all2 set_only_province (parse_markdown f) (fst (link_data (parse_markdown f) shp))"
proof -
  have keeps: "map clear_province (fst (link_data md shp)) = map clear_province md" for md
    by (rule link_data_keeps)
  have "list_all unlinked_province (parse_markdown f)"
    by (rule parse_markdown_unlinked)
  with keeps [of "parse_markdown f"]
  have "list_all2 set_only_province (parse_markdown f) (fst (link_data (parse_markdown f) shp))"
    by (rule unlinked_forest_set_only)
  with keeps [of md] show ?thesis by simp
qed

theorem link_data_frame_witness:
  "map clear_province ex_linked = map clear_province ex_forest \<and>
   list_all2 set_only_province ex_forest ex_linked"
  using link_data_frame [of ex_forest ex_shp "Some ex_lines"]
  by (simp add: ex_parse ex_link)

section \<open>Identifier and geometry go together\<close>

text \<open>
  C10, as amended.  Every region of a parsed forest has identifier and geometry both
  unset, so the identifier is set if and only if the geometry is.  When \<open>link_data\<close>
  returns on a parsed forest, identifier and geometry of every region of the forest
  returned are both what they were or the identifier cell and the shape of one row of
  the table of its tier: the two are assigned together, from the same row.  The
  identifier is then set if and only if the geometry is, on every region, when every
  row of the three tables holds an identifier and a shape or neither
  (\<open>tables_paired\<close>).
\<close>

theorem adcode_with_geometry:
  "list_all unlinked_province (parse_markdown f) \<and>
   list_all paired_province (parse_markdown f) \<and>
   (link_data (parse_markdown f) shp = (md', None) \<and> essential shp = Some (gp, gc, gd) \<longrightarrow>
      list_all2 (copied_province gp gc gd) (parse_markdown f) md') \<and>
   (link_data (parse_markdown f) shp = (md', None) \<and> tables_paired shp \<longrightarrow>
      list_all paired_province md')"
proof -
  have u: "list_all unlinked_province (parse_markdown f)"
    by (rule parse_markdown_unlinked)
  then have p: "list_all paired_province (parse_markdown f)"
    by (auto simp: list_all_iff intro: unlinked_province_paired)
  have c: "list_all2 (copied_province gp gc gd) (parse_markdown f) md'"
    if "link_data (parse_markdown f) shp = (md', None)" "essential shp = Some (gp, gc, gd)"
    for gp gc gd
    using that by (rule link_data_copied)
  have "list_all paired_province md'"
    if ret: "link_data (parse_markdown f) shp = (md', None)" and tabs: "tables_paired shp"
  proof (cases "essential shp")
    case None
    with ret have "md' = parse_markdown f" by (simp add: link_data_def)
    with p show ?thesis by simp
  next
    case (Some t)
    obtain gp gc gd where t: "t = (gp, gc, gd)" by (cases t) auto
    with Some tabs have rows: "rows_paired ''pr_adcode'' gp" "rows_paired ''ct_adcode'' gc"
      "rows_paired ''dt_adcode'' gd"
      by (simp_all add: tables_paired_def)
    from Some t have "essential shp = Some (gp, gc, gd)" by simp
    from c [OF ret this] rows p show ?thesis by (rule copied_provinces_paired)
  qed
  with u p c show ?thesis by simp
qed

theorem adcode_with_geometry_witness:
  "list_all unlinked_province ex_forest \<and>
   list_all2 (copied_province ex_provinces ex_cities ex_districts) ex_forest ex_linked \<and>
   list_all paired_province ex_linked"
proof -
  have rows: "tables_paired ex_shp"
    by (simp add: tables_paired_def ex_essential) (simp add: rows_paired_def example_defs)
  from adcode_with_geometry [of "Some ex_lines" ex_shp ex_linked ex_provinces ex_cities ex_districts]
    ex_link ex_essential rows
  show ?thesis by (simp add: ex_parse)
qed

text \<open>
  The claim as stated fails where a matched row has an identifier and a null shape:
  \<open>link_data\<close> returns, and the first region of the parsed forest of the example has its
  identifier set and its geometry unset.
\<close>

theorem adcode_without_geometry:
  "link_data (parse_markdown (Some ex_lines)) ex_shp_no_shape = (ex_linked_no_shape, None) \<and>
   adcode (ex_linked_no_shape ! 0) = Some 44 \<and>
   geometry (ex_linked_no_shape ! 0) = None"
  by (simp add: ex_parse ex_link_no_shape ex_linked_no_shape_def ex_linked_def)

end
